theory Spec2Isabelle
  imports Complex_Main "HOL-Library.Word"
begin

section \<open>Bits, bytes and cells\<close>

text \<open>
  The wrapper \<^verbatim>\<open>src/wrappers/Jetton.ts\<close> builds cell trees with the builder of the
  cell library it imports (\<^verbatim>\<open>Builder\<close>, \<^verbatim>\<open>Cell\<close>, \<^verbatim>\<open>Dictionary\<close>, \<^verbatim>\<open>Address\<close>) and
  with the byte buffers of the platform (\<^verbatim>\<open>Buffer\<close>). The functions of the wrapper are
  translated from its source; the library calls they make are modelled by what the
  library does on them: the bits a call appends, the checks it makes and the exception it
  throws when a check fails.

  A cell is a bit string of at most 1023 bits with at most four child cells. A byte buffer
  is a list of 8-bit words; a buffer is written into a cell most significant bit first.
\<close>

type_synonym byte = "8 word"

datatype cell = Cell (cell_bits: "bool list") (cell_refs: "cell list")

datatype error =
    BitBuilderOverflow
  | BitsOverflow
  | TooManyReferences
  | InvalidNumberOfReferences
  | ValueOutOfRange
  | InvalidArgument
  | TypeError
  | UnsupportedOnchainKey "16 word list"
  | InvalidMessageType

text \<open>The \<open>n\<close> low bits of \<open>v\<close>, most significant first, as \<^verbatim>\<open>writeUint\<close> lays them out.\<close>

definition uint_bits :: "nat \<Rightarrow> int \<Rightarrow> bool list" where
  "uint_bits n v = rev (map (bit v) [0..<n])"

definition buffer_bits :: "byte list \<Rightarrow> bool list" where
  "buffer_bits src = concat (map (\<lambda>b. uint_bits 8 (uint b)) src)"

section \<open>The builder\<close>

text \<open>
  A builder is a mutable object: the bits written so far and the references stored so
  far. The bit writer behind a builder has room for \<open>ceil (1023 / 8)\<close> bytes, so its
  own overflow check is against 1024 bits; the limit of 1023 bits is checked when the
  cell is made.
\<close>

record builder =
  bld_bits :: "bool list"
  bld_refs :: "cell list"

definition beginCell :: builder where
  "beginCell = \<lparr>bld_bits = [], bld_refs = []\<rparr>"

definition writer_capacity :: nat where
  "writer_capacity = 8 * ((1023 + 7) div 8)"

definition append_bits :: "bool list \<Rightarrow> builder \<Rightarrow> builder" where
  "append_bits bs b = b\<lparr>bld_bits := bld_bits b @ bs\<rparr>"

definition storeBit :: "bool \<Rightarrow> builder \<Rightarrow> error + builder" where
  "storeBit v b =
     (if length (bld_bits b) > writer_capacity then Inl BitBuilderOverflow
      else Inr (append_bits [v] b))"

definition storeUint :: "int \<Rightarrow> nat \<Rightarrow> builder \<Rightarrow> error + builder" where
  "storeUint v n b =
     (if n = 0 then (if v \<noteq> 0 then Inl ValueOutOfRange else Inr b)
      else if v < 0 \<or> v > 2 ^ n - 1 then Inl ValueOutOfRange
      else if length (bld_bits b) + n > writer_capacity then Inl BitBuilderOverflow
      else Inr (append_bits (uint_bits n v) b))"

definition storeInt :: "int \<Rightarrow> nat \<Rightarrow> builder \<Rightarrow> error + builder" where
  "storeInt v n b =
     (if n = 0 then (if v \<noteq> 0 then Inl ValueOutOfRange else Inr b)
      else if n = 1 then
        (if v \<noteq> -1 \<and> v \<noteq> 0 then Inl ValueOutOfRange else storeBit (v = -1) b)
      else if v < - (2 ^ (n - 1)) \<or> v \<ge> 2 ^ (n - 1) then Inl ValueOutOfRange
      else if v < 0 then
        (case storeBit True b of Inl e \<Rightarrow> Inl e
         | Inr b' \<Rightarrow> storeUint (2 ^ (n - 1) + v) (n - 1) b')
      else
        (case storeBit False b of Inl e \<Rightarrow> Inl e
         | Inr b' \<Rightarrow> storeUint v (n - 1) b'))"

fun store_bytes :: "byte list \<Rightarrow> builder \<Rightarrow> error + builder" where
  "store_bytes [] b = Inr b"
| "store_bytes (x # xs) b =
     (case storeUint (uint x) 8 b of Inl e \<Rightarrow> Inl e | Inr b' \<Rightarrow> store_bytes xs b')"

text \<open>
  \<^verbatim>\<open>storeBuffer\<close>: at a byte boundary the buffer is copied in one piece after one
  overflow check; elsewhere it is written byte by byte.
\<close>

definition storeBuffer :: "byte list \<Rightarrow> builder \<Rightarrow> error + builder" where
  "storeBuffer src b =
     (if length (bld_bits b) mod 8 = 0 then
        (if length (bld_bits b) + length src * 8 > writer_capacity
         then Inl BitBuilderOverflow
         else Inr (append_bits (buffer_bits src) b))
      else store_bytes src b)"

definition storeRef :: "cell \<Rightarrow> builder \<Rightarrow> error + builder" where
  "storeRef c b =
     (if length (bld_refs b) \<ge> 4 then Inl TooManyReferences
      else Inr (b\<lparr>bld_refs := bld_refs b @ [c]\<rparr>))"

definition endCell :: "builder \<Rightarrow> error + cell" where
  "endCell b =
     (if length (bld_refs b) > 4 then Inl InvalidNumberOfReferences
      else if length (bld_bits b) > 1023 then Inl BitsOverflow
      else Inr (Cell (bld_bits b) (bld_refs b)))"

section \<open>Builders as objects: the store\<close>

text \<open>
  The snake loop of \<^verbatim>\<open>buildTokenMetadataCell\<close> keeps two names for builders,
  \<^verbatim>\<open>rootCell\<close> and \<^verbatim>\<open>currentCell\<close>, that may denote the same object, and it hands a
  builder to \<^verbatim>\<open>storeRef\<close>. The store maps an address to the state of the builder
  allocated there; \<^verbatim>\<open>new Builder()\<close> allocates at the next free address.
\<close>

type_synonym heap = "builder list"

definition new_Builder :: "heap \<Rightarrow> nat \<times> heap" where
  "new_Builder h = (length h, h @ [beginCell])"

definition on_builder :: "(builder \<Rightarrow> error + builder) \<Rightarrow> nat \<Rightarrow> heap \<Rightarrow> error + heap" where
  "on_builder f a h = (case f (h ! a) of Inl e \<Rightarrow> Inl e | Inr b \<Rightarrow> Inr (h[a := b]))"

text \<open>
  \<^verbatim>\<open>storeRef\<close> called with a builder: after the check of the reference count the
  argument is finalised on the spot (\<^verbatim>\<open>this._refs.push(cell.endCell())\<close>), and the
  resulting immutable cell is what is stored. Later writes to the argument builder do not
  reach the stored cell.
\<close>

definition storeRef_Builder :: "nat \<Rightarrow> nat \<Rightarrow> heap \<Rightarrow> error + heap" where
  "storeRef_Builder arg a h =
     (if length (bld_refs (h ! a)) \<ge> 4 then Inl TooManyReferences
      else case endCell (h ! arg) of Inl e \<Rightarrow> Inl e
           | Inr c \<Rightarrow> on_builder (storeRef c) a h)"

section \<open>The snake loop\<close>

definition SNAKE_PREFIX :: int where
  "SNAKE_PREFIX = 0x00"

definition ONCHAIN_CONTENT_PREFIX :: int where
  "ONCHAIN_CONTENT_PREFIX = 0x00"

definition CELL_MAX_SIZE_BYTES :: nat where
  "CELL_MAX_SIZE_BYTES = (1023 - 8) div 8"

text \<open>
  Lines 128 to 136: \<open>snake_loop bufferToStore currentCell h\<close>. The cell made by
  \<^verbatim>\<open>currentCell.storeRef(newCell).endCell()\<close> is dropped, but making it can fail.
\<close>

function snake_loop :: "byte list \<Rightarrow> nat \<Rightarrow> heap \<Rightarrow> error + heap" where
  "snake_loop bufferToStore currentCell h =
     (if length bufferToStore > 0 then
        (case on_builder (storeBuffer (take CELL_MAX_SIZE_BYTES bufferToStore)) currentCell h of
           Inl e \<Rightarrow> Inl e
         | Inr h1 \<Rightarrow>
             (if length (drop CELL_MAX_SIZE_BYTES bufferToStore) > 0 then
                (case new_Builder h1 of (newCell, h2) \<Rightarrow>
                   (case storeRef_Builder newCell currentCell h2 of
                      Inl e \<Rightarrow> Inl e
                    | Inr h3 \<Rightarrow>
                        (case endCell (h3 ! currentCell) of
                           Inl e \<Rightarrow> Inl e
                         | Inr dropped \<Rightarrow>
                             snake_loop (drop CELL_MAX_SIZE_BYTES bufferToStore) newCell h3)))
              else snake_loop (drop CELL_MAX_SIZE_BYTES bufferToStore) currentCell h1))
      else Inr h)"
  by pat_completeness auto
termination
  by (relation "measure (\<lambda>(buf, cur, h). length buf)")
     (auto simp: CELL_MAX_SIZE_BYTES_def)

declare snake_loop.simps [simp del]

text \<open>
  Lines 122 to 138 for one value buffer: a fresh root builder, the prefix byte, the loop,
  and \<^verbatim>\<open>rootCell.endCell()\<close>.
\<close>

definition snake_cell :: "byte list \<Rightarrow> heap \<Rightarrow> error + (cell \<times> heap)" where
  "snake_cell bufferToStore h =
     (case new_Builder h of (rootCell, h1) \<Rightarrow>
        (case on_builder (storeUint SNAKE_PREFIX 8) rootCell h1 of
           Inl e \<Rightarrow> Inl e
         | Inr h2 \<Rightarrow>
             (case snake_loop bufferToStore rootCell h2 of
                Inl e \<Rightarrow> Inl e
              | Inr h3 \<Rightarrow>
                  (case endCell (h3 ! rootCell) of
                     Inl e \<Rightarrow> Inl e
                   | Inr c \<Rightarrow> Inr (c, h3)))))"

section \<open>JavaScript strings and text encodings\<close>

text \<open>
  A JavaScript string is a sequence of UTF-16 code units. \<open>js\<close> writes an ASCII literal
  of the source as such a string.
\<close>

type_synonym js_string = "16 word list"

definition js :: "string \<Rightarrow> js_string" where
  "js s = map (\<lambda>c. of_nat (of_char c)) s"

definition replacement_character :: "byte list" where
  "replacement_character = [0xEF, 0xBF, 0xBD]"

text \<open>
  \<^verbatim>\<open>Buffer.from(s, "utf8")\<close>: one to three bytes for a code unit outside the surrogate
  range, four bytes for a surrogate pair, and U+FFFD for a surrogate without its partner.
\<close>

fun utf8_encode :: "js_string \<Rightarrow> byte list" where
  "utf8_encode [] = []"
| "utf8_encode (u # us) =
     (if unat u < 0x80 then of_nat (unat u) # utf8_encode us
      else if unat u < 0x800 then
        of_nat (0xC0 + unat u div 64) # of_nat (0x80 + unat u mod 64) # utf8_encode us
      else if 0xD800 \<le> unat u \<and> unat u < 0xDC00 then
        (case us of
           [] \<Rightarrow> replacement_character
         | l # rest \<Rightarrow>
             (if 0xDC00 \<le> unat l \<and> unat l < 0xE000 then
                (let cp = 0x10000 + (unat u - 0xD800) * 1024 + (unat l - 0xDC00) in
                 of_nat (0xF0 + cp div 262144) # of_nat (0x80 + cp div 4096 mod 64) #
                 of_nat (0x80 + cp div 64 mod 64) # of_nat (0x80 + cp mod 64) #
                 utf8_encode rest)
              else replacement_character @ utf8_encode us))
      else if 0xDC00 \<le> unat u \<and> unat u < 0xE000 then
        replacement_character @ utf8_encode us
      else
        of_nat (0xE0 + unat u div 4096) # of_nat (0x80 + unat u div 64 mod 64) #
        of_nat (0x80 + unat u mod 64) # utf8_encode us)"

text \<open>\<^verbatim>\<open>Buffer.from(s, "ascii")\<close> keeps the low byte of every code unit.\<close>

definition ascii_encode :: "js_string \<Rightarrow> byte list" where
  "ascii_encode s = map ucast s"

section \<open>The metadata table\<close>

datatype encoding = Utf8 | Ascii

text \<open>
  What reading a property of the object \<^verbatim>\<open>jettonOnChainMetadataSpec\<close> yields: one of
  its four own entries, a member it inherits from \<^verbatim>\<open>Object.prototype\<close> (a function or
  an object), or \<^verbatim>\<open>undefined\<close>.
\<close>

datatype property = Undefined | EncodingName encoding | Inherited

definition Object_prototype_members :: "js_string list" where
  "Object_prototype_members =
     map js [''constructor'', ''__defineGetter__'', ''__defineSetter__'', ''hasOwnProperty'',
       ''__lookupGetter__'', ''__lookupSetter__'', ''isPrototypeOf'', ''propertyIsEnumerable'',
       ''toString'', ''valueOf'', ''__proto__'', ''toLocaleString'']"


definition jettonOnChainMetadataSpec :: "js_string \<Rightarrow> property" where
  "jettonOnChainMetadataSpec k =
     (if k = js ''name'' then EncodingName Utf8
      else if k = js ''description'' then EncodingName Utf8
      else if k = js ''image'' then EncodingName Ascii
      else if k = js ''symbol'' then EncodingName Utf8
      else if k \<in> set Object_prototype_members then Inherited
      else Undefined)"

fun truthy :: "property \<Rightarrow> bool" where
  "truthy Undefined = False"
| "truthy (EncodingName e) = True"
| "truthy Inherited = True"

text \<open>
  \<^verbatim>\<open>Buffer.from(v, encoding)\<close>: an encoding argument that is not a string selects UTF-8.
\<close>

fun Buffer_from :: "js_string \<Rightarrow> property \<Rightarrow> byte list" where
  "Buffer_from v (EncodingName Utf8) = utf8_encode v"
| "Buffer_from v (EncodingName Ascii) = ascii_encode v"
| "Buffer_from v Inherited = utf8_encode v"
| "Buffer_from v Undefined = utf8_encode v"

section \<open>The metadata dictionary\<close>

text \<open>
  The dictionary object keeps its entries in insertion order; \<^verbatim>\<open>set\<close> on a key that is
  present replaces the value in place. The hash function and the serialisation of a
  dictionary into a cell belong to libraries; they are parameters here:
  \<open>digest\<close> is \<^verbatim>\<open>update\<close> followed by \<^verbatim>\<open>digestSync\<close> on the bytes of the string, and
  \<open>serializeDict\<close> makes the root cell of a non-empty dictionary.
\<close>

type_synonym dictionary = "(byte list \<times> cell) list"

fun Dictionary_set :: "byte list \<Rightarrow> cell \<Rightarrow> dictionary \<Rightarrow> dictionary" where
  "Dictionary_set k v [] = [(k, v)]"
| "Dictionary_set k v (p # ps) =
     (if fst p = k then (k, v) # ps else p # Dictionary_set k v ps)"

definition sha256 :: "(byte list \<Rightarrow> byte list) \<Rightarrow> js_string \<Rightarrow> byte list" where
  "sha256 digest str = digest (utf8_encode str)"

definition KEYLEN :: nat where
  "KEYLEN = 256"

text \<open>The callback of \<^verbatim>\<open>forEach\<close>, lines 115 to 139, on one entry \<open>(k, v)\<close>.\<close>

fun metadata_entry ::
  "(byte list \<Rightarrow> byte list) \<Rightarrow> js_string \<times> js_string option \<Rightarrow> dictionary \<times> heap
     \<Rightarrow> error + (dictionary \<times> heap)" where
  "metadata_entry digest (k, v) (dict, h) =
     (if \<not> truthy (jettonOnChainMetadataSpec k) then Inl (UnsupportedOnchainKey k)
      else case v of
          None \<Rightarrow> Inr (dict, h)
        | Some s \<Rightarrow>
            (if s = [] then Inr (dict, h)
             else case snake_cell (Buffer_from s (jettonOnChainMetadataSpec k)) h of
                 Inl e \<Rightarrow> Inl e
               | Inr (c, h') \<Rightarrow> Inr (Dictionary_set (take KEYLEN (sha256 digest k)) c dict, h')))"

text \<open>
  \<^verbatim>\<open>Object.entries(data).forEach\<close>: \<open>data\<close> is given by the list of its entries, in the
  order the object enumerates them. The first exception ends the loop.
\<close>

fun forEach_entries ::
  "(byte list \<Rightarrow> byte list) \<Rightarrow> (js_string \<times> js_string option) list \<Rightarrow> dictionary \<times> heap
     \<Rightarrow> error + (dictionary \<times> heap)" where
  "forEach_entries digest [] st = Inr st"
| "forEach_entries digest (e # es) st =
     (case metadata_entry digest e st of
        Inl err \<Rightarrow> Inl err
      | Inr st' \<Rightarrow> forEach_entries digest es st')"

definition metadata_dict ::
  "(byte list \<Rightarrow> byte list) \<Rightarrow> (js_string \<times> js_string option) list \<Rightarrow> heap
     \<Rightarrow> error + (dictionary \<times> heap)" where
  "metadata_dict digest data h = forEach_entries digest data ([], h)"

text \<open>Calls of a fluent chain, each on the builder the one before returned.\<close>

fun chain :: "(builder \<Rightarrow> error + builder) list \<Rightarrow> builder \<Rightarrow> error + builder" where
  "chain [] b = Inr b"
| "chain (f # fs) b = (case f b of Inl e \<Rightarrow> Inl e | Inr b' \<Rightarrow> chain fs b')"

definition build :: "(builder \<Rightarrow> error + builder) list \<Rightarrow> error + cell" where
  "build fs = (case chain fs beginCell of Inl e \<Rightarrow> Inl e | Inr b \<Rightarrow> endCell b)"

definition storeDict :: "(dictionary \<Rightarrow> cell) \<Rightarrow> dictionary \<Rightarrow> builder \<Rightarrow> error + builder" where
  "storeDict serializeDict dict b =
     (if dict = [] then storeBit False b
      else chain [storeBit True, storeRef (serializeDict dict)] b)"

definition buildTokenMetadataCell ::
  "(byte list \<Rightarrow> byte list) \<Rightarrow> (dictionary \<Rightarrow> cell) \<Rightarrow> (js_string \<times> js_string option) list
     \<Rightarrow> heap \<Rightarrow> error + (cell \<times> heap)" where
  "buildTokenMetadataCell digest serializeDict data h =
     (case metadata_dict digest data h of
        Inl e \<Rightarrow> Inl e
      | Inr (dict, h') \<Rightarrow>
          (case build [storeInt ONCHAIN_CONTENT_PREFIX 8, storeDict serializeDict dict] of
             Inl e \<Rightarrow> Inl e
           | Inr c \<Rightarrow> Inr (c, h')))"

section \<open>Message bodies\<close>

record Address =
  workChain :: int
  hash :: "byte list"

fun binary_length :: "nat \<Rightarrow> nat" where
  "binary_length n = (if n = 0 then 0 else Suc (binary_length (n div 2)))"

declare binary_length.simps [simp del]

text \<open>\<^verbatim>\<open>writeVarUint\<close>: the byte count of the value in \<open>n\<close> bits, then the value.\<close>

definition storeVarUint :: "int \<Rightarrow> nat \<Rightarrow> builder \<Rightarrow> error + builder" where
  "storeVarUint v n b =
     (if v < 0 then Inl ValueOutOfRange
      else if v = 0 then storeUint 0 n b
      else chain [storeUint (int ((binary_length (nat v) + 7) div 8)) n,
                  storeUint v (((binary_length (nat v) + 7) div 8) * 8)] b)"

definition storeCoins :: "int \<Rightarrow> builder \<Rightarrow> error + builder" where
  "storeCoins amount b = storeVarUint amount 4 b"

text \<open>\<^verbatim>\<open>storeAddress\<close> of \<^verbatim>\<open>null\<close> (\<open>None\<close>) or of an internal address.\<close>

fun storeAddress :: "Address option \<Rightarrow> builder \<Rightarrow> error + builder" where
  "storeAddress None b = storeUint 0 2 b"
| "storeAddress (Some a) b =
     chain [storeUint 2 2, storeUint 0 1, storeInt (workChain a) 8, storeBuffer (hash a)] b"

text \<open>\<^verbatim>\<open>toNano\<close> of a decimal number: the amount in units of \<open>10\<^sup>-\<^sup>9\<close>.\<close>

definition toNano :: "rat \<Rightarrow> int" where
  "toNano src = \<lfloor>src * 1000000000\<rfloor>"

definition Opcodes_Mint :: int where
  "Opcodes_Mint = 0x15"

definition Opcodes_InternalTransfer :: int where
  "Opcodes_InternalTransfer = 0x178d4519"

fun nullish_or :: "int option \<Rightarrow> int \<Rightarrow> int" where
  "nullish_or None d = d"
| "nullish_or (Some q) d = q"

text \<open>
  \<^verbatim>\<open>mintBody\<close>, lines 46 to 70. The calls before \<^verbatim>\<open>storeRef\<close> run first, then the
  inner cell is built, then it is stored.
\<close>

definition mintBody :: "Address \<Rightarrow> int \<Rightarrow> int \<Rightarrow> int option \<Rightarrow> error + cell" where
  "mintBody owner jettonAmount transferToJWallet queryId =
     build
       [storeUint Opcodes_Mint 32,
        storeUint (nullish_or queryId 0) 64,
        storeAddress (Some owner),
        storeCoins transferToJWallet,
        (\<lambda>b. case build
                 [storeUint Opcodes_InternalTransfer 32,
                  storeUint (nullish_or queryId 0) 64,
                  storeCoins jettonAmount,
                  storeAddress None,
                  storeAddress (Some owner),
                  storeCoins (toNano (1 / 1000)),
                  storeBit False] of
               Inl e \<Rightarrow> Inl e
             | Inr c \<Rightarrow> storeRef c b)]"

text \<open>
  A message object at run time: each field is the value of the property, or \<open>None\<close>
  when the object has no such property (\<^verbatim>\<open>undefined\<close>). The builder writes a missing
  address as the null address, throws \<^verbatim>\<open>Invalid argument\<close> when handed \<^verbatim>\<open>undefined\<close>
  as a reference, and cannot convert \<^verbatim>\<open>undefined\<close> to an integer.
\<close>

definition storeRef_property :: "cell option \<Rightarrow> builder \<Rightarrow> error + builder" where
  "storeRef_property c b =
     (case c of
        Some x \<Rightarrow> storeRef x b
      | None \<Rightarrow> if length (bld_refs b) \<ge> 4 then Inl TooManyReferences else Inl InvalidArgument)"

definition storeUint_property :: "int option \<Rightarrow> nat \<Rightarrow> builder \<Rightarrow> error + builder" where
  "storeUint_property v n b = (case v of Some x \<Rightarrow> storeUint x n b | None \<Rightarrow> Inl TypeError)"

definition storeCoins_property :: "int option \<Rightarrow> builder \<Rightarrow> error + builder" where
  "storeCoins_property v b = (case v of Some x \<Rightarrow> storeCoins x b | None \<Rightarrow> Inl TypeError)"

record JettonInitial =
  treasury :: "Address option"
  minting_info :: "cell option"
  token_content :: "cell option"

definition storeJettonInitial :: "JettonInitial \<Rightarrow> builder \<Rightarrow> error + builder" where
  "storeJettonInitial src b_0 =
     chain [storeUint 2412644301 32,
            storeAddress (treasury src),
            storeRef_property (minting_info src),
            storeRef_property (token_content src)] b_0"

record TokenBurnNotification =
  query_id :: "int option"
  amount :: "int option"
  response_destination :: "Address option"

definition storeTokenBurnNotification :: "TokenBurnNotification \<Rightarrow> builder \<Rightarrow> error + builder" where
  "storeTokenBurnNotification src b_0 =
     chain [storeUint 2078119902 32,
            storeUint_property (query_id src) 64,
            storeCoins_property (amount src),
            storeAddress (response_destination src)] b_0"

section \<open>Text bodies\<close>

definition availableBits :: "builder \<Rightarrow> int" where
  "availableBits b = 1023 - int (length (bld_bits b))"

text \<open>
  \<^verbatim>\<open>subarray(start, end)\<close> of a buffer: a negative index counts from the end, and both
  indices are clamped to the buffer.
\<close>

definition clamp_index :: "int \<Rightarrow> nat \<Rightarrow> nat" where
  "clamp_index i n = (if i < 0 then nat (int n + i) else min (nat i) n)"

definition subarray :: "int \<Rightarrow> int \<Rightarrow> byte list \<Rightarrow> byte list" where
  "subarray start end src =
     drop (clamp_index start (length src)) (take (clamp_index end (length src)) src)"

definition subarray_from :: "int \<Rightarrow> byte list \<Rightarrow> byte list" where
  "subarray_from start src = drop (clamp_index start (length src)) src"

text \<open>
  \<^verbatim>\<open>storeStringTail\<close> writes the bytes of the string with the library's
  \<^verbatim>\<open>writeBuffer(src, builder)\<close>: what does not fit into the builder goes into a
  fresh cell, stored as a reference.
\<close>

function writeBuffer_tail :: "byte list \<Rightarrow> builder \<Rightarrow> error + builder" where
  "writeBuffer_tail src b =
     (if length src > 0 then
        (if int (length src) > availableBits b div 8 then
           (case storeBuffer (subarray 0 (availableBits b div 8) src) b of
              Inl e \<Rightarrow> Inl e
            | Inr b1 \<Rightarrow>
                (case writeBuffer_tail (subarray_from (availableBits b div 8) src) beginCell of
                   Inl e \<Rightarrow> Inl e
                 | Inr bb \<Rightarrow>
                     (case endCell bb of
                        Inl e \<Rightarrow> Inl e
                      | Inr c \<Rightarrow> storeRef c b1)))
         else storeBuffer src b)
      else Inr b)"
  by pat_completeness auto
termination
  by (relation "measure (\<lambda>(src, b). 2 * length src + (if availableBits b div 8 \<le> 0 then 1 else 0))")
     (auto simp: subarray_from_def clamp_index_def availableBits_def beginCell_def)

declare writeBuffer_tail.simps [simp del]

definition storeStringTail :: "js_string \<Rightarrow> builder \<Rightarrow> error + builder" where
  "storeStringTail src b = writeBuffer_tail (utf8_encode src) b"

section \<open>The dispatch of \<^verbatim>\<open>send\<close>\<close>

text \<open>
  The values \<^verbatim>\<open>send\<close> can be handed at run time: an object tagged
  \<^verbatim>\<open>JettonInitial\<close> or \<^verbatim>\<open>TokenBurnNotification\<close> with the fields it has, a string,
  \<^verbatim>\<open>undefined\<close>, \<^verbatim>\<open>null\<close>, a boolean, a number, a slice, or an object that has
  none of the fields, with its \<^verbatim>\<open>$$type\<close> if it has one.
\<close>

datatype message =
    MsgJettonInitial JettonInitial
  | MsgTokenBurnNotification TokenBurnNotification
  | MsgString js_string
  | MsgUndefined
  | MsgNull
  | MsgBoolean bool
  | MsgNumber int
  | MsgSlice
  | MsgObject "js_string option"

datatype js_type = TypeObject | TypeString | TypeUndefined | TypeBoolean | TypeNumber

fun is_truthy :: "message \<Rightarrow> bool" where
  "is_truthy (MsgString s) = (s \<noteq> [])"
| "is_truthy MsgUndefined = False"
| "is_truthy MsgNull = False"
| "is_truthy (MsgBoolean v) = v"
| "is_truthy (MsgNumber n) = (n \<noteq> 0)"
| "is_truthy m = True"

fun typeof :: "message \<Rightarrow> js_type" where
  "typeof (MsgString s) = TypeString"
| "typeof MsgUndefined = TypeUndefined"
| "typeof (MsgBoolean v) = TypeBoolean"
| "typeof (MsgNumber n) = TypeNumber"
| "typeof m = TypeObject"

fun instanceof_Slice :: "message \<Rightarrow> bool" where
  "instanceof_Slice MsgSlice = True"
| "instanceof_Slice m = False"

text \<open>The property \<^verbatim>\<open>$$type\<close> of the message, when it is a string.\<close>

fun type_tag :: "message \<Rightarrow> js_string option" where
  "type_tag (MsgJettonInitial x) = Some (js ''JettonInitial'')"
| "type_tag (MsgTokenBurnNotification x) = Some (js ''TokenBurnNotification'')"
| "type_tag (MsgObject t) = t"
| "type_tag m = None"

text \<open>
  The two store functions read the fields of the message; a value other than the tagged
  object with its fields has none of them, so every read gives \<^verbatim>\<open>undefined\<close>.
\<close>

fun store_message_JettonInitial :: "message \<Rightarrow> error + cell" where
  "store_message_JettonInitial (MsgJettonInitial x) = build [storeJettonInitial x]"
| "store_message_JettonInitial m =
     build [storeJettonInitial \<lparr>treasury = None, minting_info = None, token_content = None\<rparr>]"

fun store_message_TokenBurnNotification :: "message \<Rightarrow> error + cell" where
  "store_message_TokenBurnNotification (MsgTokenBurnNotification x) =
     build [storeTokenBurnNotification x]"
| "store_message_TokenBurnNotification m =
     build [storeTokenBurnNotification
              \<lparr>query_id = None, amount = None, response_destination = None\<rparr>]"

fun message_text :: "message \<Rightarrow> js_string" where
  "message_text (MsgString s) = s"
| "message_text m = []"

definition text_body :: "message \<Rightarrow> error + cell" where
  "text_body message = build [storeUint 0 32, storeStringTail (message_text message)]"

text \<open>
  One \<^verbatim>\<open>if\<close> of lines 205 to 229: when the test holds, \<^verbatim>\<open>body\<close> is assigned the cell
  built, and an exception while building ends \<^verbatim>\<open>send\<close>.
\<close>

definition assign_if :: "bool \<Rightarrow> error + cell \<Rightarrow> cell option \<Rightarrow> error + cell option" where
  "assign_if test built body =
     (if test then (case built of Inl e \<Rightarrow> Inl e | Inr c \<Rightarrow> Inr (Some c)) else Inr body)"

fun seq :: "(cell option \<Rightarrow> error + cell option) list \<Rightarrow> cell option \<Rightarrow> error + cell option" where
  "seq [] body = Inr body"
| "seq (f # fs) body = (case f body of Inl e \<Rightarrow> Inl e | Inr body' \<Rightarrow> seq fs body')"

text \<open>
  \<^verbatim>\<open>send\<close>, lines 204 to 234: the result is the body handed to
  \<^verbatim>\<open>provider.internal\<close>, or the exception thrown before.
\<close>

definition send :: "message \<Rightarrow> error + cell" where
  "send message =
     (case seq
        [assign_if (is_truthy message \<and> typeof message = TypeObject \<and>
                    \<not> instanceof_Slice message \<and> type_tag message = Some (js ''JettonInitial''))
           (store_message_JettonInitial message),
         assign_if (typeof message = TypeString) (text_body message),
         assign_if (message = MsgString (js ''Owner Claim'')) (text_body message),
         assign_if (message = MsgString (js ''Mint'')) (text_body message),
         assign_if (is_truthy message \<and> typeof message = TypeObject \<and>
                    \<not> instanceof_Slice message \<and>
                    type_tag message = Some (js ''TokenBurnNotification''))
           (store_message_TokenBurnNotification message)]
        None of
        Inl e \<Rightarrow> Inl e
      | Inr None \<Rightarrow> Inl InvalidMessageType
      | Inr (Some body) \<Rightarrow> Inr body)"

section \<open>Reading a chain of cells\<close>

text \<open>
  The payload bits of a chain of cells from the root to the leaf, following the first
  reference of each cell, and the bytes they spell.
\<close>

fun chain_bits :: "cell \<Rightarrow> bool list" where
  "chain_bits (Cell bs []) = bs"
| "chain_bits (Cell bs (c # cs)) = bs @ chain_bits c"

fun chain_cells :: "cell \<Rightarrow> cell list" where
  "chain_cells (Cell bs []) = [Cell bs []]"
| "chain_cells (Cell bs (c # cs)) = Cell bs (c # cs) # chain_cells c"

definition byte_of_bits :: "bool list \<Rightarrow> byte" where
  "byte_of_bits bs = horner_sum of_bool 2 (rev bs)"

fun bits_to_bytes :: "bool list \<Rightarrow> byte list" where
  "bits_to_bytes (b7 # b6 # b5 # b4 # b3 # b2 # b1 # b0 # rest) =
     byte_of_bits [b7, b6, b5, b4, b3, b2, b1, b0] # bits_to_bytes rest"
| "bits_to_bytes bs = []"

text \<open>
  The snake decoder of the specification: the payload bits of the chain, without the
  8 bits of the format prefix of the root, as bytes.
\<close>

definition snake_decode :: "cell \<Rightarrow> byte list" where
  "snake_decode c = bits_to_bytes (drop 8 (chain_bits c))"

section \<open>Field layouts\<close>

text \<open>
  The bit layouts the specification names: a coin amount is the byte count of the value
  in 4 bits followed by the value in that many bytes; an internal address is the tag
  \<open>10\<close>, a zero bit for the absent anycast, the workchain as a signed 8-bit integer
  and the hash; the missing address is the tag \<open>00\<close>.
\<close>

definition coins_bits :: "int \<Rightarrow> bool list" where
  "coins_bits v =
     uint_bits 4 (int ((binary_length (nat v) + 7) div 8)) @
     uint_bits (((binary_length (nat v) + 7) div 8) * 8) v"

definition address_bits :: "Address \<Rightarrow> bool list" where
  "address_bits a = [True, False, False] @ uint_bits 8 (workChain a) @ buffer_bits (hash a)"

definition no_address_bits :: "bool list" where
  "no_address_bits = [False, False]"

section \<open>Instances for evaluation\<close>

text \<open>
  Concrete functions for the two library parameters, to run the definitions on concrete
  inputs: a digest that pads or cuts its input to 32 bytes, and a dictionary cell that
  refers to the first four values. An address in workchain 0, and the metadata of the
  scenario of the specification.
\<close>

definition sample_digest :: "byte list \<Rightarrow> byte list" where
  "sample_digest bs = take 32 (bs @ replicate 32 0)"

definition sample_serializeDict :: "dictionary \<Rightarrow> cell" where
  "sample_serializeDict dict = Cell [] (map snd (take 4 dict))"

definition zero_address :: Address where
  "zero_address = \<lparr>workChain = 0, hash = replicate 32 0\<rparr>"


section \<open>The effect of the snake loop\<close>


lemma length_uint_bits [simp]: "length (uint_bits n v) = n"
  by (simp add: uint_bits_def)

lemma length_buffer_bits [simp]: "length (buffer_bits src) = 8 * length src"
  by (induction src) (simp_all add: buffer_bits_def)

lemma snake_loop_effect:
  assumes "currentCell < length h"
    and "length (bld_bits (h ! currentCell)) mod 8 = 0"
    and "length (bld_bits (h ! currentCell)) \<le> 8"
    and "bld_refs (h ! currentCell) = []"
  shows "\<exists>h'. snake_loop buf currentCell h = Inr h'
      \<and> length h \<le> length h'
      \<and> (\<forall>a. a < length h \<and> a \<noteq> currentCell \<longrightarrow> h' ! a = h ! a)
      \<and> h' ! currentCell = (h ! currentCell)
            \<lparr>bld_bits := bld_bits (h ! currentCell) @ buffer_bits (take CELL_MAX_SIZE_BYTES buf),
             bld_refs := (if length buf > CELL_MAX_SIZE_BYTES then [Cell [] []] else [])\<rparr>
      \<and> (\<forall>a. length h \<le> a \<and> a < length h' \<longrightarrow>
            length (bld_bits (h' ! a)) \<le> 8 * CELL_MAX_SIZE_BYTES \<and> length (bld_refs (h' ! a)) \<le> 1)"
  using assms
proof (induction buf currentCell h rule: snake_loop.induct)
  case (1 buf cur h)
  show ?case
  proof (cases "length buf > 0")
    case False
    then show ?thesis using "1.prems" by (subst snake_loop.simps) (simp add: buffer_bits_def)
  next
    case True
    define b1 where "b1 = append_bits (buffer_bits (take CELL_MAX_SIZE_BYTES buf)) (h ! cur)"
    define h1 where "h1 = h[cur := b1]"
    have st: "on_builder (storeBuffer (take CELL_MAX_SIZE_BYTES buf)) cur h = Inr h1"
      using "1.prems"
      by (simp add: on_builder_def storeBuffer_def writer_capacity_def CELL_MAX_SIZE_BYTES_def
          h1_def b1_def)
    show ?thesis
    proof (cases "length (drop CELL_MAX_SIZE_BYTES buf) > 0")
      case False
      have "snake_loop (drop CELL_MAX_SIZE_BYTES buf) cur h1 = Inr h1"
        using False by (subst snake_loop.simps) simp
      then have "snake_loop buf cur h = Inr h1"
        using True False st by (subst snake_loop.simps) simp
      moreover have "h1 ! cur = b1" using "1.prems" by (simp add: h1_def)
      ultimately show ?thesis using False "1.prems"
        by (auto simp: h1_def b1_def append_bits_def)
    next
      case long: True
      define h2 where "h2 = h1 @ [beginCell]"
      define b3 where "b3 = b1\<lparr>bld_refs := [Cell [] []]\<rparr>"
      define h3 where "h3 = h2[cur := b3]"
      have nb: "new_Builder h1 = (length h, h2)"
        by (simp add: new_Builder_def h2_def h1_def)
      have h2cur: "h2 ! cur = b1" using "1.prems"
        by (simp add: h2_def h1_def nth_append)
      have sr: "storeRef_Builder (length h) cur h2 = Inr h3"
        using "1.prems" h2cur
        by (simp add: storeRef_Builder_def h2_def h1_def nth_append endCell_def beginCell_def
            on_builder_def storeRef_def h3_def b3_def b1_def append_bits_def)
      have h3cur: "h3 ! cur = b3" using "1.prems"
        by (simp add: h3_def h2_def h1_def)
      have ec: "endCell (h3 ! cur) = Inr (Cell (bld_bits b3) (bld_refs b3))"
        using "1.prems" h3cur
        by (simp add: endCell_def b3_def b1_def append_bits_def CELL_MAX_SIZE_BYTES_def)
      have step: "snake_loop buf cur h = snake_loop (drop CELL_MAX_SIZE_BYTES buf) (length h) h3"
        using True long st nb sr ec by (subst snake_loop.simps) simp
      have h3new: "h3 ! length h = beginCell" using "1.prems"
        by (simp add: h3_def h2_def h1_def nth_append)
      have len3: "length h3 = Suc (length h)"
        by (simp add: h3_def h2_def h1_def)
      have IH: "\<exists>h'. snake_loop (drop CELL_MAX_SIZE_BYTES buf) (length h) h3 = Inr h'
          \<and> length h3 \<le> length h'
          \<and> (\<forall>a. a < length h3 \<and> a \<noteq> length h \<longrightarrow> h' ! a = h3 ! a)
          \<and> h' ! length h = (h3 ! length h)
            \<lparr>bld_bits := bld_bits (h3 ! length h)
                 @ buffer_bits (take CELL_MAX_SIZE_BYTES (drop CELL_MAX_SIZE_BYTES buf)),
             bld_refs := (if length (drop CELL_MAX_SIZE_BYTES buf) > CELL_MAX_SIZE_BYTES
                          then [Cell [] []] else [])\<rparr>
          \<and> (\<forall>a. length h3 \<le> a \<and> a < length h' \<longrightarrow>
            length (bld_bits (h' ! a)) \<le> 8 * CELL_MAX_SIZE_BYTES \<and> length (bld_refs (h' ! a)) \<le> 1)"
        using "1.IH"(1)[OF True st long nb[symmetric] sr ec]
          h3new len3 by (simp add: beginCell_def)
      then obtain h' where h': "snake_loop (drop CELL_MAX_SIZE_BYTES buf) (length h) h3 = Inr h'"
          "length h3 \<le> length h'"
          "\<forall>a. a < length h3 \<and> a \<noteq> length h \<longrightarrow> h' ! a = h3 ! a"
          "h' ! length h = (h3 ! length h)
            \<lparr>bld_bits := bld_bits (h3 ! length h)
                 @ buffer_bits (take CELL_MAX_SIZE_BYTES (drop CELL_MAX_SIZE_BYTES buf)),
             bld_refs := (if length (drop CELL_MAX_SIZE_BYTES buf) > CELL_MAX_SIZE_BYTES
                          then [Cell [] []] else [])\<rparr>"
          "\<forall>a. length h3 \<le> a \<and> a < length h' \<longrightarrow>
            length (bld_bits (h' ! a)) \<le> 8 * CELL_MAX_SIZE_BYTES \<and> length (bld_refs (h' ! a)) \<le> 1"
        by blast
      have a1: "length h \<le> length h'" using h'(2) len3 by simp
      have a2: "\<forall>a. a < length h \<and> a \<noteq> cur \<longrightarrow> h' ! a = h ! a"
        using h'(3) len3 by (auto simp: h3_def h2_def h1_def nth_append)
      have a3: "h' ! cur = b3" using h'(3) len3 h3cur "1.prems"(1) by auto
      have a4: "\<forall>a. length h \<le> a \<and> a < length h' \<longrightarrow>
            length (bld_bits (h' ! a)) \<le> 8 * CELL_MAX_SIZE_BYTES \<and> length (bld_refs (h' ! a)) \<le> 1"
      proof (intro allI impI)
        fix a assume a: "length h \<le> a \<and> a < length h'"
        show "length (bld_bits (h' ! a)) \<le> 8 * CELL_MAX_SIZE_BYTES \<and> length (bld_refs (h' ! a)) \<le> 1"
        proof (cases "a = length h")
          case True
          then show ?thesis using h'(4) h3new by (simp add: beginCell_def)
        next
          case False
          then show ?thesis using a h'(5) len3 by simp
        qed
      qed
      show ?thesis
        using step h'(1) a1 a2 a3 a4 long
        by (simp add: b3_def b1_def append_bits_def)
    qed
  qed
qed


lemma snake_cell_result:
  "\<exists>h'. snake_cell buf h =
         Inr (Cell (uint_bits 8 SNAKE_PREFIX @ buffer_bits (take CELL_MAX_SIZE_BYTES buf))
                (if length buf > CELL_MAX_SIZE_BYTES then [Cell [] []] else []), h')
      \<and> take (length h) h' = h
      \<and> length h < length h'
      \<and> (\<forall>a. length h \<le> a \<and> a < length h' \<longrightarrow>
            length (bld_bits (h' ! a)) \<le> 8 + 8 * CELL_MAX_SIZE_BYTES \<and> length (bld_refs (h' ! a)) \<le> 1)"
proof -
  define b0 where "b0 = append_bits (uint_bits 8 SNAKE_PREFIX) beginCell"
  define h2 where "h2 = h @ [b0]"
  have nb: "new_Builder h = (length h, h @ [beginCell])"
    by (simp add: new_Builder_def)
  have su: "on_builder (storeUint SNAKE_PREFIX 8) (length h) (h @ [beginCell]) = Inr h2"
    by (simp add: on_builder_def storeUint_def SNAKE_PREFIX_def beginCell_def writer_capacity_def
        h2_def b0_def append_bits_def)
  have pre: "length h < length h2" "length (bld_bits (h2 ! length h)) mod 8 = 0"
    "length (bld_bits (h2 ! length h)) \<le> 8" "bld_refs (h2 ! length h) = []"
    by (simp_all add: h2_def b0_def append_bits_def beginCell_def)
  from snake_loop_effect[OF pre, of buf]
  obtain h' where h': "snake_loop buf (length h) h2 = Inr h'"
    "length h2 \<le> length h'"
    "\<forall>a. a < length h2 \<and> a \<noteq> length h \<longrightarrow> h' ! a = h2 ! a"
    "h' ! length h = (h2 ! length h)
            \<lparr>bld_bits := bld_bits (h2 ! length h) @ buffer_bits (take CELL_MAX_SIZE_BYTES buf),
             bld_refs := (if length buf > CELL_MAX_SIZE_BYTES then [Cell [] []] else [])\<rparr>"
    "\<forall>a. length h2 \<le> a \<and> a < length h' \<longrightarrow>
            length (bld_bits (h' ! a)) \<le> 8 * CELL_MAX_SIZE_BYTES \<and> length (bld_refs (h' ! a)) \<le> 1"
    by blast
  have root: "h' ! length h =
      \<lparr>bld_bits = uint_bits 8 SNAKE_PREFIX @ buffer_bits (take CELL_MAX_SIZE_BYTES buf),
       bld_refs = (if length buf > CELL_MAX_SIZE_BYTES then [Cell [] []] else [])\<rparr>"
    using h'(4) by (simp add: h2_def b0_def append_bits_def beginCell_def)
  have ec: "endCell (h' ! length h) =
      Inr (Cell (uint_bits 8 SNAKE_PREFIX @ buffer_bits (take CELL_MAX_SIZE_BYTES buf))
                (if length buf > CELL_MAX_SIZE_BYTES then [Cell [] []] else []))"
    unfolding root by (simp add: endCell_def CELL_MAX_SIZE_BYTES_def)
  have res: "snake_cell buf h =
      Inr (Cell (uint_bits 8 SNAKE_PREFIX @ buffer_bits (take CELL_MAX_SIZE_BYTES buf))
                (if length buf > CELL_MAX_SIZE_BYTES then [Cell [] []] else []), h')"
    by (simp add: snake_cell_def nb su h'(1) ec)
  have len2: "length h2 = Suc (length h)" by (simp add: h2_def)
  have tk: "take (length h) h' = h"
  proof (rule nth_equalityI)
    show "length (take (length h) h') = length h" using h'(2) len2 by simp
  next
    fix i assume "i < length (take (length h) h')"
    then have i: "i < length h" by simp
    then have "h' ! i = h2 ! i" using h'(3) len2 by simp
    then show "take (length h) h' ! i = h ! i" using i by (simp add: h2_def nth_append)
  qed
  have bounds: "\<forall>a. length h \<le> a \<and> a < length h' \<longrightarrow>
            length (bld_bits (h' ! a)) \<le> 8 + 8 * CELL_MAX_SIZE_BYTES \<and> length (bld_refs (h' ! a)) \<le> 1"
  proof (intro allI impI)
    fix a assume a: "length h \<le> a \<and> a < length h'"
    show "length (bld_bits (h' ! a)) \<le> 8 + 8 * CELL_MAX_SIZE_BYTES \<and> length (bld_refs (h' ! a)) \<le> 1"
    proof (cases "a = length h")
      case True
      then show ?thesis unfolding True root by (simp add: CELL_MAX_SIZE_BYTES_def)
    next
      case False
      then have "length h2 \<le> a \<and> a < length h'" using a len2 by simp
      then show ?thesis using h'(5) by fastforce
    qed
  qed
  show ?thesis using res tk bounds h'(2) len2 by auto
qed

lemma uint_bits_8: "uint_bits 8 v =
  [bit v 7, bit v 6, bit v 5, bit v 4, bit v 3, bit v 2, bit v 1, bit v 0]"
  by (simp add: uint_bits_def upt_rec numeral_eq_Suc)

lemma byte_of_bits_uint_bits: "byte_of_bits (uint_bits 8 (uint w)) = w"
proof -
  have "byte_of_bits (uint_bits 8 (uint w)) = horner_sum of_bool 2 (map (bit (uint w)) [0..<8])"
    by (simp add: byte_of_bits_def uint_bits_def)
  also have "map (bit (uint w)) [0..<8] = map (bit w) [0..<8]"
    by (simp add: bit_uint_iff)
  also have "horner_sum of_bool 2 (map (bit w) [0..<8]) = take_bit 8 w"
    by (rule horner_sum_bit_eq_take_bit)
  also have "take_bit 8 w = w" by (rule take_bit_word_eq_self) simp
  finally show ?thesis .
qed

lemma bits_to_bytes_buffer_bits: "bits_to_bytes (buffer_bits src) = src"
proof (induction src)
  case Nil
  show ?case by (simp add: buffer_bits_def)
next
  case (Cons w ws)
  have "buffer_bits (w # ws) = uint_bits 8 (uint w) @ buffer_bits ws"
    by (simp add: buffer_bits_def)
  moreover have "bits_to_bytes (uint_bits 8 (uint w) @ buffer_bits ws)
      = byte_of_bits (uint_bits 8 (uint w)) # bits_to_bytes (buffer_bits ws)"
    by (simp add: uint_bits_8)
  ultimately show ?case using Cons.IH by (simp add: byte_of_bits_uint_bits)
qed

lemma snake_decode_result:
  "\<exists>c h'. snake_cell buf h = Inr (c, h') \<and> snake_decode c = take CELL_MAX_SIZE_BYTES buf"
proof -
  from snake_cell_result[of buf h] obtain h' where
    r: "snake_cell buf h =
         Inr (Cell (uint_bits 8 SNAKE_PREFIX @ buffer_bits (take CELL_MAX_SIZE_BYTES buf))
                (if length buf > CELL_MAX_SIZE_BYTES then [Cell [] []] else []), h')"
    by blast
  have "snake_decode (Cell (uint_bits 8 SNAKE_PREFIX @ buffer_bits (take CELL_MAX_SIZE_BYTES buf))
                (if length buf > CELL_MAX_SIZE_BYTES then [Cell [] []] else []))
        = take CELL_MAX_SIZE_BYTES buf"
    by (simp add: snake_decode_def bits_to_bytes_buffer_bits)
  with r show ?thesis by blast
qed

lemma snake_roundtrip_short:
  assumes "length buf \<le> CELL_MAX_SIZE_BYTES"
  shows "\<exists>c h'. snake_cell buf h = Inr (c, h') \<and> snake_decode c = buf"
  using snake_decode_result[of buf h] assms by simp

section \<open>Snake encoding of a value\<close>

text \<open>
  Claim C1 (snake round-trip for buffers of 1 to 1260 bytes) does not hold of the code.
  At a buffer of 127 bytes the loop hands the still empty builder \<^verbatim>\<open>newCell\<close> to
  \<^verbatim>\<open>storeRef\<close>, which stores the empty cell made from it at that moment; the 127th byte
  is written into a builder that no cell refers to. Decoding the chain of the root cell
  gives the first 126 bytes only (\<open>snake_decode_result\<close>, for every buffer); a buffer
  of at most 126 bytes is read back whole (\<open>snake_roundtrip_short\<close>).
\<close>

theorem snake_roundtrip_loses_tail:
  "map_sum id (snake_decode \<circ> fst) (snake_cell (replicate 127 0x41) []) =
     Inr (replicate 126 0x41) \<and>
   replicate 126 0x41 \<noteq> replicate 127 (0x41 :: byte)"
proof -
  from snake_decode_result[of "replicate 127 0x41" "[]"]
  obtain c h' where "snake_cell (replicate 127 0x41) [] = Inr (c, h')"
    "snake_decode c = take CELL_MAX_SIZE_BYTES (replicate 127 0x41)" by blast
  then have "map_sum id (snake_decode \<circ> fst) (snake_cell (replicate 127 0x41) []) =
     Inr (replicate 126 0x41)"
    by (simp add: CELL_MAX_SIZE_BYTES_def)
  moreover have "length (replicate 126 (0x41 :: byte)) \<noteq> length (replicate 127 (0x41 :: byte))"
    by simp
  then have "replicate 126 0x41 \<noteq> replicate 127 (0x41 :: byte)"
    by metis
  ultimately show ?thesis by (rule conjI)
qed

text \<open>
  Claim C2 (a buffer of \<open>k\<close> times 126 bytes gives \<open>k\<close> cells, the last one non-empty)
  does not hold of the code, by the same defect as C1. At 252 bytes and at 378 bytes the
  chain is the root cell with the first 126 bytes and one empty cell.
\<close>

theorem snake_chunk_boundary_empty_leaf:
  "map_sum id (chain_cells \<circ> fst) (snake_cell (replicate 252 0x41) []) =
     Inr [Cell (uint_bits 8 0 @ buffer_bits (replicate 126 0x41)) [Cell [] []], Cell [] []]
   \<and> map_sum id (chain_cells \<circ> fst) (snake_cell (replicate 378 0x41) []) =
     Inr [Cell (uint_bits 8 0 @ buffer_bits (replicate 126 0x41)) [Cell [] []], Cell [] []]"
proof -
  from snake_cell_result[of "replicate 252 0x41" "[]"] obtain h1 where
    "snake_cell (replicate 252 0x41) [] =
       Inr (Cell (uint_bits 8 SNAKE_PREFIX @ buffer_bits (take CELL_MAX_SIZE_BYTES (replicate 252 0x41)))
              (if length (replicate 252 (0x41 :: byte)) > CELL_MAX_SIZE_BYTES then [Cell [] []] else []), h1)"
    by blast
  moreover
  from snake_cell_result[of "replicate 378 0x41" "[]"] obtain h2 where
    "snake_cell (replicate 378 0x41) [] =
       Inr (Cell (uint_bits 8 SNAKE_PREFIX @ buffer_bits (take CELL_MAX_SIZE_BYTES (replicate 378 0x41)))
              (if length (replicate 378 (0x41 :: byte)) > CELL_MAX_SIZE_BYTES then [Cell [] []] else []), h2)"
    by blast
  ultimately show ?thesis
    by (simp add: CELL_MAX_SIZE_BYTES_def SNAKE_PREFIX_def)
qed

section \<open>The entries of the metadata mapping\<close>

lemma metadata_entry_result:
  "\<exists>h'. metadata_entry digest (k, v) (dict, h) =
     (if \<not> truthy (jettonOnChainMetadataSpec k) then Inl (UnsupportedOnchainKey k)
      else if v = None \<or> v = Some [] then Inr (dict, h)
      else Inr (Dictionary_set (take KEYLEN (sha256 digest k))
             (Cell (uint_bits 8 SNAKE_PREFIX @
                    buffer_bits (take CELL_MAX_SIZE_BYTES
                       (Buffer_from (the v) (jettonOnChainMetadataSpec k))))
                (if length (Buffer_from (the v) (jettonOnChainMetadataSpec k)) > CELL_MAX_SIZE_BYTES
                 then [Cell [] []] else []))
             dict, h'))"
proof (cases "\<not> truthy (jettonOnChainMetadataSpec k) \<or> v = None \<or> v = Some []")
  case True
  then show ?thesis by (auto split: option.splits)
next
  case False
  then obtain s where s: "v = Some s" "s \<noteq> []" by (cases v) auto
  from snake_cell_result[of "Buffer_from s (jettonOnChainMetadataSpec k)" h]
  obtain h' where "snake_cell (Buffer_from s (jettonOnChainMetadataSpec k)) h =
     Inr (Cell (uint_bits 8 SNAKE_PREFIX @
                    buffer_bits (take CELL_MAX_SIZE_BYTES
                       (Buffer_from s (jettonOnChainMetadataSpec k))))
                (if length (Buffer_from s (jettonOnChainMetadataSpec k)) > CELL_MAX_SIZE_BYTES
                 then [Cell [] []] else []), h')" by blast
  then show ?thesis using False s by (intro exI[of _ h']) simp
qed

lemma metadata_entry_heap:
  "map_sum id fst (metadata_entry digest e (dict, h1)) =
   map_sum id fst (metadata_entry digest e (dict, h2))"
proof -
  obtain k v where e: "e = (k, v)" by (cases e)
  from metadata_entry_result[of digest k v dict h1] metadata_entry_result[of digest k v dict h2]
  show ?thesis unfolding e by (auto split: if_splits)
qed

lemma forEach_entries_heap:
  "map_sum id fst (forEach_entries digest data (dict, h1)) =
   map_sum id fst (forEach_entries digest data (dict, h2))"
proof (induction data arbitrary: dict h1 h2)
  case Nil
  show ?case by simp
next
  case (Cons e es)
  have eq: "map_sum id fst (metadata_entry digest e (dict, h1)) =
      map_sum id fst (metadata_entry digest e (dict, h2))"
    by (rule metadata_entry_heap)
  show ?case
  proof (cases "metadata_entry digest e (dict, h1)")
    case (Inl err)
    with eq have "metadata_entry digest e (dict, h2) = Inl err"
      by (cases "metadata_entry digest e (dict, h2)") auto
    with Inl show ?thesis by simp
  next
    case (Inr st)
    obtain d' h1' where st: "st = (d', h1')" by (cases st)
    with eq Inr obtain h2' where "metadata_entry digest e (dict, h2) = Inr (d', h2')"
      by (cases "metadata_entry digest e (dict, h2)") auto
    with Inr st Cons.IH[of d' h1' h2'] show ?thesis by simp
  qed
qed

lemma forEach_entries_first_rejected:
  assumes "\<forall>x \<in> set pre. \<not> jettonOnChainMetadataSpec (fst x) = Undefined"
    and "jettonOnChainMetadataSpec k = Undefined"
  shows "forEach_entries digest (pre @ (k, v) # post) (dict, h) = Inl (UnsupportedOnchainKey k)"
  using assms(1)
proof (induction pre arbitrary: dict h)
  case Nil
  show ?case using assms(2) by simp
next
  case (Cons e es)
  obtain k0 v0 where e: "e = (k0, v0)" by (cases e)
  have "jettonOnChainMetadataSpec k0 \<noteq> Undefined" using Cons.prems e by simp
  then have tr: "truthy (jettonOnChainMetadataSpec k0)"
    by (cases "jettonOnChainMetadataSpec k0") auto
  from metadata_entry_result[of digest k0 v0 dict h] tr
  obtain d' h' where st: "metadata_entry digest e (dict, h) = Inr (d', h')"
    unfolding e by (auto split: if_splits)
  have "\<forall>x \<in> set es. \<not> jettonOnChainMetadataSpec (fst x) = Undefined"
    using Cons.prems by simp
  from Cons.IH[OF this, of d' h'] st show ?case by simp
qed




lemma toString_Inherited: "jettonOnChainMetadataSpec (js ''toString'') = Inherited"
  by (simp add: jettonOnChainMetadataSpec_def js_def Object_prototype_members_def)

lemma foo_Undefined: "jettonOnChainMetadataSpec (js ''foo'') = Undefined"
  by (simp add: jettonOnChainMetadataSpec_def js_def Object_prototype_members_def)

lemma utf8_x: "utf8_encode (js ''x'') = [0x78]"
  by (simp add: js_def)




lemma uint_bits_Suc: "uint_bits (Suc n) v = bit v n # uint_bits n v"
  by (simp add: uint_bits_def)

lemma uint_bits_numeral: "uint_bits (numeral k) v = bit v (pred_numeral k) # uint_bits (pred_numeral k) v"
  by (simp add: numeral_eq_Suc uint_bits_Suc)

lemma content_cell:
  "build [storeInt ONCHAIN_CONTENT_PREFIX 8, storeDict serializeDict dict] =
     Inr (Cell (uint_bits 8 0 @ [dict \<noteq> []]) (if dict = [] then [] else [serializeDict dict]))"
  by (simp add: build_def storeInt_def storeBit_def storeUint_def storeDict_def storeRef_def
      endCell_def beginCell_def append_bits_def ONCHAIN_CONTENT_PREFIX_def writer_capacity_def
      uint_bits_numeral[of _ 0])

section \<open>The metadata cell\<close>

text \<open>
  Claim C8: the cell tree \<open>buildTokenMetadataCell\<close> returns, or the exception it
  throws, is the same whatever builders the store holds when the call starts; so two
  calls on the same mapping, the second running in the store the first has left, give the
  same cell tree.
\<close>

theorem buildTokenMetadataCell_deterministic:
  "map_sum id fst (buildTokenMetadataCell digest serializeDict data h1) =
   map_sum id fst (buildTokenMetadataCell digest serializeDict data h2)"
proof -
  have eq: "map_sum id fst (metadata_dict digest data h1) = map_sum id fst (metadata_dict digest data h2)"
    unfolding metadata_dict_def by (rule forEach_entries_heap)
  show ?thesis
  proof (cases "metadata_dict digest data h1")
    case (Inl err)
    with eq have "metadata_dict digest data h2 = Inl err"
      by (cases "metadata_dict digest data h2") auto
    with Inl show ?thesis by (simp add: buildTokenMetadataCell_def)
  next
    case (Inr st)
    obtain d' h1' where st: "st = (d', h1')" by (cases st)
    with eq Inr obtain h2' where "metadata_dict digest data h2 = Inr (d', h2')"
      by (cases "metadata_dict digest data h2") auto
    with Inr st show ?thesis
      by (simp add: buildTokenMetadataCell_def split: sum.splits)
  qed
qed

text \<open>
  Claim C4 (every mapping with a key outside name, description, image and symbol is
  rejected) does not hold of the code. The test of line 116 reads the property \<open>k\<close> of
  the table object, and for the name of a member of \<^verbatim>\<open>Object.prototype\<close> that is the
  inherited member, which is truthy. The mapping with the one entry
  \<^verbatim>\<open>toString: "x"\<close> is accepted: the call returns a cell whose dictionary has an entry
  under the hash of \<^verbatim>\<open>toString\<close>. The mapping with the one entry
  \<^verbatim>\<open>constructor: undefined\<close> is accepted too: the call returns the cell of the empty
  dictionary.
\<close>

theorem inherited_key_accepted:
  "(\<exists>h'. buildTokenMetadataCell digest serializeDict [(js ''toString'', Some (js ''x''))] h =
     Inr (Cell (uint_bits 8 0 @ [True])
            [serializeDict [(take KEYLEN (sha256 digest (js ''toString'')),
                             Cell (uint_bits 8 0 @ buffer_bits [0x78]) [])]], h'))
   \<and> buildTokenMetadataCell digest serializeDict [(js ''constructor'', None)] h =
     Inr (Cell (uint_bits 8 0 @ [False]) [], h)"
proof -
  have ne: "js ''x'' \<noteq> []" by (simp add: js_def)
  from metadata_entry_result[of digest "js ''toString''" "Some (js ''x'')" "[]" h]
  obtain h' where "metadata_entry digest (js ''toString'', Some (js ''x'')) ([], h) =
      Inr ([(take KEYLEN (sha256 digest (js ''toString'')),
            Cell (uint_bits 8 0 @ buffer_bits [0x78]) [])], h')"
    using ne by (auto simp: toString_Inherited utf8_x SNAKE_PREFIX_def CELL_MAX_SIZE_BYTES_def)
  then have "metadata_dict digest [(js ''toString'', Some (js ''x''))] h =
      Inr ([(take KEYLEN (sha256 digest (js ''toString'')),
            Cell (uint_bits 8 0 @ buffer_bits [0x78]) [])], h')"
    by (simp add: metadata_dict_def)
  then have first: "\<exists>h'. buildTokenMetadataCell digest serializeDict
         [(js ''toString'', Some (js ''x''))] h =
     Inr (Cell (uint_bits 8 0 @ [True])
            [serializeDict [(take KEYLEN (sha256 digest (js ''toString'')),
                             Cell (uint_bits 8 0 @ buffer_bits [0x78]) [])]], h')"
    by (simp add: buildTokenMetadataCell_def content_cell)
  have "jettonOnChainMetadataSpec (js ''constructor'') = Inherited"
    by (simp add: jettonOnChainMetadataSpec_def js_def Object_prototype_members_def)
  then have "metadata_dict digest [(js ''constructor'', None)] h = Inr ([], h)"
    by (simp add: metadata_dict_def)
  then have second: "buildTokenMetadataCell digest serializeDict [(js ''constructor'', None)] h =
     Inr (Cell (uint_bits 8 0 @ [False]) [], h)"
    by (simp add: buildTokenMetadataCell_def content_cell)
  from first second show ?thesis by (rule conjI)
qed

text \<open>
  Claim C5 as stated (the key is validated only when the value is non-empty) fails: the
  mapping with the one entry \<^verbatim>\<open>foo: ""\<close> is rejected.
\<close>

theorem empty_value_unsupported_key_counterexample:
  "buildTokenMetadataCell sample_digest sample_serializeDict [(js ''foo'', Some [])] [] =
     Inl (UnsupportedOnchainKey (js ''foo''))"
  by (simp add: buildTokenMetadataCell_def metadata_dict_def foo_Undefined)

text \<open>
  Claim C5, amended: the key of every entry is validated before its value is looked at.
  A mapping with an entry whose key the table has no property for, own or inherited, is
  rejected with the unsupported-key error for the first such key in the order of the
  mapping (every entry before it has a key the table has a property for), whatever the
  values of the entries (undefined, empty or not).
\<close>

theorem unsupported_key_rejected_for_every_value:
  assumes "(k, v) \<in> set data" and "jettonOnChainMetadataSpec k = Undefined"
  shows "\<exists>pre k' v' post.
     data = pre @ (k', v') # post \<and>
     (\<forall>e \<in> set pre. jettonOnChainMetadataSpec (fst e) \<noteq> Undefined) \<and>
     k' \<in> fst ` set data \<and> jettonOnChainMetadataSpec k' = Undefined \<and>
     buildTokenMetadataCell digest serializeDict data h = Inl (UnsupportedOnchainKey k')"
proof -
  have ex: "\<exists>e \<in> set data. jettonOnChainMetadataSpec (fst e) = Undefined"
    using assms by force
  from split_list_first_prop[OF ex]
  obtain pre e post where d: "data = pre @ e # post"
    and e: "jettonOnChainMetadataSpec (fst e) = Undefined"
    and pre: "\<forall>x \<in> set pre. \<not> jettonOnChainMetadataSpec (fst x) = Undefined"
    by blast
  obtain k' v' where kv: "e = (k', v')" by (cases e)
  have u: "jettonOnChainMetadataSpec k' = Undefined" using e kv by simp
  have "forEach_entries digest (pre @ (k', v') # post) ([], h) = Inl (UnsupportedOnchainKey k')"
    using pre u by (rule forEach_entries_first_rejected)
  then have b: "buildTokenMetadataCell digest serializeDict data h =
      Inl (UnsupportedOnchainKey k')"
    by (simp add: buildTokenMetadataCell_def metadata_dict_def d kv)
  have m: "k' \<in> fst ` set data" by (force simp: d kv)
  show ?thesis
    using d pre u b m unfolding kv by blast
qed

theorem unsupported_key_rejected_for_every_value_witness:
  "(js ''foo'', Some (js ''y'')) \<in>
      set [(js ''name'', Some (js ''A'')), (js ''zzz'', None), (js ''foo'', Some (js ''y''))] \<and>
   jettonOnChainMetadataSpec (js ''foo'') = Undefined \<and>
   buildTokenMetadataCell sample_digest sample_serializeDict
      [(js ''name'', Some (js ''A'')), (js ''zzz'', None), (js ''foo'', Some (js ''y''))] [] =
     Inl (UnsupportedOnchainKey (js ''zzz''))"
proof -
  let ?data = "[(js ''name'', Some (js ''A'')), (js ''zzz'', None), (js ''foo'', Some (js ''y''))]"
  have m: "(js ''foo'', Some (js ''y'')) \<in> set ?data" by simp
  have nm: "jettonOnChainMetadataSpec (js ''name'') \<noteq> Undefined"
    by (simp add: jettonOnChainMetadataSpec_def)
  have zz: "jettonOnChainMetadataSpec (js ''zzz'') = Undefined"
    by (simp add: jettonOnChainMetadataSpec_def js_def Object_prototype_members_def)
  from unsupported_key_rejected_for_every_value[OF m foo_Undefined,
      of sample_digest sample_serializeDict "[]"]
  obtain pre k' v' post where r: "?data = pre @ (k', v') # post"
     "\<forall>e \<in> set pre. jettonOnChainMetadataSpec (fst e) \<noteq> Undefined"
     "jettonOnChainMetadataSpec k' = Undefined"
     "buildTokenMetadataCell sample_digest sample_serializeDict ?data [] =
        Inl (UnsupportedOnchainKey k')"
    by blast
  have "k' = js ''zzz''"
  proof (cases pre)
    case Nil
    with r(1) have "k' = js ''name''" by simp
    with r(3) nm show ?thesis by simp
  next
    case (Cons x xs)
    note c1 = Cons
    show ?thesis
    proof (cases xs)
      case Nil
      with r(1) c1 show ?thesis by simp
    next
      case (Cons y ys)
      with r(1) c1 have "y = (js ''zzz'', None)" by simp
      with r(2) c1 Cons zz show ?thesis by simp
    qed
  qed
  with r(4) m foo_Undefined show ?thesis by simp
qed



lemma forEach_entries_errors:
  "forEach_entries digest data st = Inl err \<Longrightarrow> \<exists>k. err = UnsupportedOnchainKey k"
proof (induction data arbitrary: st)
  case Nil
  then show ?case by simp
next
  case (Cons e es)
  obtain k v where e: "e = (k, v)" by (cases e)
  obtain dict h where st: "st = (dict, h)" by (cases st)
  show ?case
  proof (cases "metadata_entry digest e st")
    case (Inl err')
    with Cons.prems have "err' = err" by simp
    with Inl metadata_entry_result[of digest k v dict h] show ?thesis
      unfolding e st by (auto split: if_splits)
  next
    case (Inr st')
    with Cons.prems have "forEach_entries digest es st' = Inl err" by simp
    then show ?thesis by (rule Cons.IH)
  qed
qed

lemma buildTokenMetadataCell_errors:
  "buildTokenMetadataCell digest serializeDict data h = Inl err \<Longrightarrow>
   \<exists>k. err = UnsupportedOnchainKey k"
  by (auto simp: buildTokenMetadataCell_def metadata_dict_def content_cell
      split: sum.splits dest: forEach_entries_errors)

text \<open>
  Claim C9: every builder the snake loop fills (the builders allocated by
  \<open>snake_cell\<close>, at the addresses from \<open>length h\<close> on) holds at most
  \<open>8 + 126 * 8 = 1016\<close> bits and at most one reference, making a cell of it succeeds,
  and no call of the loop fails: \<open>snake_cell\<close> returns a cell for every buffer, and the
  builders allocated before are left as they were. So the overflow errors of the builder
  are out of reach of \<open>buildTokenMetadataCell\<close>: the only exception it throws is the
  unsupported-key error.
\<close>

theorem snake_within_limits:
  "(\<exists>c h'. snake_cell buf h = Inr (c, h') \<and> take (length h) h' = h \<and>
     list_all (\<lambda>b. length (bld_bits b) \<le> 8 + 126 * 8 \<and> length (bld_refs b) \<le> 1 \<and>
                   endCell b = Inr (Cell (bld_bits b) (bld_refs b)))
       (drop (length h) h'))
   \<and> (case buildTokenMetadataCell digest serializeDict data h of
         Inl err \<Rightarrow> \<exists>k. err = UnsupportedOnchainKey k
       | Inr r \<Rightarrow> True)"
proof -
  from snake_cell_result[of buf h] obtain h' where
    r: "snake_cell buf h =
         Inr (Cell (uint_bits 8 SNAKE_PREFIX @ buffer_bits (take CELL_MAX_SIZE_BYTES buf))
                (if length buf > CELL_MAX_SIZE_BYTES then [Cell [] []] else []), h')"
    and tk: "take (length h) h' = h"
    and bd: "\<forall>a. length h \<le> a \<and> a < length h' \<longrightarrow>
            length (bld_bits (h' ! a)) \<le> 8 + 8 * CELL_MAX_SIZE_BYTES \<and> length (bld_refs (h' ! a)) \<le> 1"
    by blast
  have "list_all (\<lambda>b. length (bld_bits b) \<le> 8 + 126 * 8 \<and> length (bld_refs b) \<le> 1 \<and>
                   endCell b = Inr (Cell (bld_bits b) (bld_refs b)))
       (drop (length h) h')"
    unfolding list_all_length
  proof (intro allI impI)
    fix n assume "n < length (drop (length h) h')"
    then have "length h \<le> length h + n \<and> length h + n < length h'" by simp
    with bd have "length (bld_bits (h' ! (length h + n))) \<le> 8 + 8 * CELL_MAX_SIZE_BYTES
        \<and> length (bld_refs (h' ! (length h + n))) \<le> 1" by blast
    moreover have "drop (length h) h' ! n = h' ! (length h + n)"
      using \<open>n < length (drop (length h) h')\<close> by simp
    ultimately show "length (bld_bits (drop (length h) h' ! n)) \<le> 8 + 126 * 8 \<and>
         length (bld_refs (drop (length h) h' ! n)) \<le> 1 \<and>
         endCell (drop (length h) h' ! n) =
         Inr (Cell (bld_bits (drop (length h) h' ! n)) (bld_refs (drop (length h) h' ! n)))"
      by (simp add: CELL_MAX_SIZE_BYTES_def endCell_def)
  qed
  with r tk have first: "\<exists>c h'. snake_cell buf h = Inr (c, h') \<and> take (length h) h' = h \<and>
     list_all (\<lambda>b. length (bld_bits b) \<le> 8 + 126 * 8 \<and> length (bld_refs b) \<le> 1 \<and>
                   endCell b = Inr (Cell (bld_bits b) (bld_refs b)))
       (drop (length h) h')" by blast
  have second: "(case buildTokenMetadataCell digest serializeDict data h of
         Inl err \<Rightarrow> \<exists>k. err = UnsupportedOnchainKey k
       | Inr r \<Rightarrow> True)"
    by (cases "buildTokenMetadataCell digest serializeDict data h")
       (auto dest: buildTokenMetadataCell_errors)
  from first second show ?thesis by (rule conjI)
qed

section \<open>Builder calls that succeed\<close>

lemma bld_bits_append_bits [simp]: "bld_bits (append_bits bs b) = bld_bits b @ bs"
  by (simp add: append_bits_def)

lemma bld_refs_append_bits [simp]: "bld_refs (append_bits bs b) = bld_refs b"
  by (simp add: append_bits_def)

lemma append_bits_append_bits: "append_bits ys (append_bits xs b) = append_bits (xs @ ys) b"
  by (simp add: append_bits_def)

lemma append_bits_Nil: "append_bits [] b = b"
  by (simp add: append_bits_def)

lemma storeBit_ok:
  "length (bld_bits b) \<le> 1024 \<Longrightarrow> storeBit v b = Inr (append_bits [v] b)"
  by (simp add: storeBit_def writer_capacity_def)

lemma storeUint_ok:
  "0 \<le> v \<Longrightarrow> v < 2 ^ n \<Longrightarrow> length (bld_bits b) + n \<le> 1024 \<Longrightarrow>
   storeUint v n b = Inr (append_bits (uint_bits n v) b)"
  by (cases "n = 0") (auto simp: storeUint_def writer_capacity_def uint_bits_def append_bits_Nil)

lemma store_bytes_ok:
  "length (bld_bits b) + 8 * length src \<le> 1024 \<Longrightarrow>
   store_bytes src b = Inr (append_bits (buffer_bits src) b)"
proof (induction src arbitrary: b)
  case Nil
  show ?case by (simp add: buffer_bits_def append_bits_Nil)
next
  case (Cons x xs)
  have u: "storeUint (uint x) 8 b = Inr (append_bits (uint_bits 8 (uint x)) b)"
  proof (rule storeUint_ok)
    show "0 \<le> uint x" by simp
    have "uint x < 2 ^ LENGTH(8)" by (rule uint_lt2p)
    then show "uint x < 2 ^ 8" by simp
    show "length (bld_bits b) + 8 \<le> 1024" using Cons.prems by simp
  qed
  have "store_bytes xs (append_bits (uint_bits 8 (uint x)) b) =
      Inr (append_bits (buffer_bits xs) (append_bits (uint_bits 8 (uint x)) b))"
    using Cons.prems by (intro Cons.IH) simp
  then show ?case
    by (simp add: u append_bits_append_bits buffer_bits_def)
qed

lemma storeBuffer_ok:
  "length (bld_bits b) + 8 * length src \<le> 1024 \<Longrightarrow>
   storeBuffer src b = Inr (append_bits (buffer_bits src) b)"
  by (simp add: storeBuffer_def store_bytes_ok writer_capacity_def)

lemma storeRef_ok:
  "length (bld_refs b) < 4 \<Longrightarrow> storeRef c b = Inr (b\<lparr>bld_refs := bld_refs b @ [c]\<rparr>)"
  by (simp add: storeRef_def)

lemma endCell_ok:
  "length (bld_bits b) \<le> 1023 \<Longrightarrow> length (bld_refs b) \<le> 4 \<Longrightarrow>
   endCell b = Inr (Cell (bld_bits b) (bld_refs b))"
  by (simp add: endCell_def)

lemma binary_length_bound: "n < 2 ^ binary_length n"
proof (induction n rule: binary_length.induct)
  case (1 n)
  show ?case
  proof (cases "n = 0")
    case True
    then show ?thesis by (simp add: binary_length.simps)
  next
    case False
    with 1 have "n div 2 < 2 ^ binary_length (n div 2)" by simp
    then have "n < 2 * 2 ^ binary_length (n div 2)" by linarith
    with False show ?thesis by (subst binary_length.simps) simp
  qed
qed

lemma binary_length_le: "n < 2 ^ k \<Longrightarrow> binary_length n \<le> k"
proof (induction n arbitrary: k rule: binary_length.induct)
  case (1 n)
  show ?case
  proof (cases "n = 0")
    case True
    then show ?thesis by (simp add: binary_length.simps)
  next
    case False
    with "1.prems" obtain k' where k: "k = Suc k'" by (cases k) auto
    with "1.prems" have "n div 2 < 2 ^ k'" by simp
    with 1 False have "binary_length (n div 2) \<le> k'" by simp
    with False k show ?thesis by (subst binary_length.simps) simp
  qed
qed

lemma coins_size:
  assumes "0 \<le> v" and "v < 2 ^ 120"
  shows "(binary_length (nat v) + 7) div 8 \<le> 15"
proof -
  have "nat v < 2 ^ 120" using assms by (simp add: nat_less_iff)
  then have "binary_length (nat v) \<le> 120" by (rule binary_length_le)
  then show ?thesis by simp
qed

lemma length_coins_bits:
  "length (coins_bits v) = 4 + 8 * ((binary_length (nat v) + 7) div 8)"
  by (simp add: coins_bits_def)

lemma length_coins_bits_le:
  "0 \<le> v \<Longrightarrow> v < 2 ^ 120 \<Longrightarrow> length (coins_bits v) \<le> 124"
  using coins_size[of v] by (simp add: length_coins_bits)

lemma storeCoins_ok:
  assumes "0 \<le> v" and "v < 2 ^ 120" and "length (bld_bits b) + 124 \<le> 1024"
  shows "storeCoins v b = Inr (append_bits (coins_bits v) b)"
proof (cases "v = 0")
  case True
  have "binary_length (nat 0) = 0" by (simp add: binary_length.simps)
  then have "coins_bits 0 = uint_bits 4 0" by (simp add: coins_bits_def uint_bits_def)
  moreover have "storeUint 0 4 b = Inr (append_bits (uint_bits 4 0) b)"
    using assms(3) by (intro storeUint_ok) simp_all
  ultimately show ?thesis using True by (simp add: storeCoins_def storeVarUint_def)
next
  case False
  define n where "n = (binary_length (nat v) + 7) div 8"
  have n15: "n \<le> 15" unfolding n_def using assms(1,2) by (rule coins_size)
  have s1: "storeUint (int n) 4 b = Inr (append_bits (uint_bits 4 (int n)) b)"
    using n15 assms(3) by (intro storeUint_ok) simp_all
  have "nat v < 2 ^ binary_length (nat v)" by (rule binary_length_bound)
  also have "(2::nat) ^ binary_length (nat v) \<le> 2 ^ (n * 8)"
    unfolding n_def by (intro power_increasing) simp_all
  finally have "int (nat v) < int (2 ^ (n * 8))" by (simp only: of_nat_less_iff)
  then have fit: "v < 2 ^ (n * 8)" using assms(1) by simp
  have s2: "storeUint v (n * 8) (append_bits (uint_bits 4 (int n)) b) =
      Inr (append_bits (uint_bits (n * 8) v) (append_bits (uint_bits 4 (int n)) b))"
    using assms(1) fit n15 assms(3) by (intro storeUint_ok) simp_all
  show ?thesis
    using False assms(1) s1 s2
    by (simp add: storeCoins_def storeVarUint_def n_def[symmetric] coins_bits_def
        append_bits_append_bits)
qed

lemma uint_bits_take_bit: "uint_bits n (take_bit n v) = uint_bits n v"
  by (simp add: uint_bits_def bit_take_bit_iff)

lemma int8_bits:
  assumes "- 128 \<le> v" and "v < 128"
  shows "(v < 0) # uint_bits 7 (if v < 0 then 128 + v else v) = uint_bits 8 v"
proof -
  have "v div 128 = (if v < 0 then - 1 else 0)"
    using assms by presburger
  then have top: "bit v 7 = (v < 0)"
    by (simp add: bit_iff_odd)
  have "take_bit 7 (128 + v) = take_bit 7 v"
    by (simp add: take_bit_eq_mod)
  then have "uint_bits 7 (128 + v) = uint_bits 7 v"
    by (metis uint_bits_take_bit)
  moreover have "uint_bits (Suc 7) v = bit v 7 # uint_bits 7 v"
    by (rule uint_bits_Suc)
  ultimately show ?thesis
    using top by simp
qed

lemma storeInt8_ok:
  assumes "- 128 \<le> v" and "v < 128" and "length (bld_bits b) + 8 \<le> 1024"
  shows "storeInt v 8 b = Inr (append_bits (uint_bits 8 v) b)"
proof -
  have sb: "storeBit (v < 0) b = Inr (append_bits [v < 0] b)"
    using assms(3) by (intro storeBit_ok) simp
  have su: "storeUint (if v < 0 then 128 + v else v) 7 (append_bits [v < 0] b) =
      Inr (append_bits (uint_bits 7 (if v < 0 then 128 + v else v)) (append_bits [v < 0] b))"
    using assms by (intro storeUint_ok) auto
  have "storeInt v 8 b =
      Inr (append_bits ((v < 0) # uint_bits 7 (if v < 0 then 128 + v else v)) b)"
    using assms(1,2) sb su
    by (auto simp: storeInt_def append_bits_append_bits)
  then show ?thesis using int8_bits[OF assms(1,2)] by simp
qed

lemma small_uint_bits:
  "uint_bits 2 2 = [True, False]" "uint_bits 1 0 = [False]" "uint_bits 2 0 = [False, False]"
  "uint_bits (Suc 0) 0 = [False]"
  by (simp_all add: uint_bits_def upt_rec numeral_eq_Suc)

lemma length_address_bits: "length (address_bits a) = 11 + 8 * length (hash a)"
  by (simp add: address_bits_def)

lemma chain_step: "f b = Inr b' \<Longrightarrow> chain (f # fs) b = chain fs b'"
  by simp

lemma storeAddress_ok:
  assumes "- 128 \<le> workChain a" and "workChain a < 128" and "length (hash a) = 32"
    and "length (bld_bits b) + 267 \<le> 1024"
  shows "storeAddress (Some a) b = Inr (append_bits (address_bits a) b)"
proof -
  define b1 where "b1 = append_bits (uint_bits 2 2) b"
  define b2 where "b2 = append_bits (uint_bits 1 0) b1"
  define b3 where "b3 = append_bits (uint_bits 8 (workChain a)) b2"
  have s1: "storeUint 2 2 b = Inr b1"
    unfolding b1_def using assms(4) by (intro storeUint_ok) simp_all
  have s2: "storeUint 0 1 b1 = Inr b2"
    unfolding b2_def using assms(4) by (intro storeUint_ok) (simp_all add: b1_def)
  have s3: "storeInt (workChain a) 8 b2 = Inr b3"
    unfolding b3_def using assms by (intro storeInt8_ok) (simp_all add: b2_def b1_def)
  have s4: "storeBuffer (hash a) b3 = Inr (append_bits (buffer_bits (hash a)) b3)"
    using assms by (intro storeBuffer_ok) (simp add: b3_def b2_def b1_def)
  have "storeAddress (Some a) b = Inr (append_bits (buffer_bits (hash a)) b3)"
    unfolding storeAddress.simps
      chain_step[of "storeUint 2 2" b b1, OF s1]
      chain_step[of "storeUint 0 1" b1 b2, OF s2]
      chain_step[of "storeInt (workChain a) 8" b2 b3, OF s3]
    by (simp add: s4)
  also have "append_bits (buffer_bits (hash a)) b3 = append_bits (address_bits a) b"
    by (simp add: b3_def b2_def b1_def append_bits_def address_bits_def small_uint_bits)
  finally show ?thesis .
qed

lemma storeAddress_None_ok:
  "length (bld_bits b) + 2 \<le> 1024 \<Longrightarrow>
   storeAddress None b = Inr (append_bits no_address_bits b)"
  using storeUint_ok[of 0 2 b] by (simp add: small_uint_bits no_address_bits_def)

lemma toNano_milli: "toNano (1 / 1000) = 1000000"
  by (simp add: toNano_def)

lemma binary_length_power: "binary_length (2 ^ k) = Suc k"
proof -
  have "(2::nat) ^ k < 2 ^ binary_length (2 ^ k)" by (rule binary_length_bound)
  then have "k < binary_length (2 ^ k)" by (simp only: power_strict_increasing_iff one_less_numeral_iff semiring_norm)
  moreover have "(2::nat) ^ k < 2 ^ Suc k" by simp
  then have "binary_length (2 ^ k) \<le> Suc k" by (rule binary_length_le)
  ultimately show ?thesis by simp
qed

declare storeAddress.simps [simp del]

section \<open>The mint body\<close>

text \<open>
  Claim C3 as stated (for every owner, amounts and query id \<open>mintBody\<close> returns the
  frame) fails: the bit writer rejects a query id that is negative, and a coin amount of
  \<open>2\<^sup>1\<^sup>2\<^sup>0\<close> needs 16 bytes, which the 4-bit length of a coin amount cannot say.
\<close>

theorem mintBody_rejects_counterexample:
  "mintBody zero_address 1000 500 (Some (- 1)) = Inl ValueOutOfRange \<and>
   mintBody zero_address (2 ^ 120) 500 (Some 7) = Inl ValueOutOfRange"
proof -
  have a: "storeAddress (Some zero_address) b = Inr (append_bits (address_bits zero_address) b)"
    if "length (bld_bits b) + 267 \<le> 1024" for b
    using that by (intro storeAddress_ok) (simp_all add: zero_address_def)
  have la: "length (address_bits zero_address) = 267"
    by (simp add: length_address_bits zero_address_def)
  have c: "storeCoins 500 b = Inr (append_bits (coins_bits 500) b)"
    if "length (bld_bits b) + 124 \<le> 1024" for b
    using that by (intro storeCoins_ok) simp_all
  have lc: "length (coins_bits 500) \<le> 124"
    by (rule length_coins_bits_le) simp_all
  have n: "nat (2 ^ 120) = (2::nat) ^ 120" by simp
  have bl: "binary_length (nat (2 ^ 120)) = 121"
    unfolding n binary_length_power by simp
  have sz: "(binary_length (nat (2 ^ 120)) + 7) div 8 = 16"
    unfolding bl by simp
  have big: "storeCoins (2 ^ 120) b = Inl ValueOutOfRange" for b
    unfolding storeCoins_def storeVarUint_def sz
    by (simp add: storeUint_def)
  have big': "storeCoins 1329227995784915872903807060280344576 b = Inl ValueOutOfRange" for b
    using big[of b] by simp
  have q1: "mintBody zero_address 1000 500 (Some (- 1)) = Inl ValueOutOfRange"
    by (simp add: mintBody_def build_def storeUint_def Opcodes_Mint_def writer_capacity_def
        beginCell_def)
  have q2: "mintBody zero_address (2 ^ 120) 500 (Some 7) = Inl ValueOutOfRange"
    using lc
    by (simp add: mintBody_def build_def storeUint_ok a c la big' Opcodes_Mint_def
        Opcodes_InternalTransfer_def beginCell_def)
  from q1 q2 show ?thesis by simp
qed

text \<open>
  Claim C3, amended: for every owner address \<open>A\<close> with a workchain in the signed 8-bit
  range and a 32-byte hash, amounts \<open>j\<close> and \<open>t\<close> with \<open>0 \<le> j, t < 2\<^sup>1\<^sup>2\<^sup>0\<close> and a query
  id \<open>q\<close> with \<open>0 \<le> q < 2\<^sup>6\<^sup>4\<close> (\<open>q = 0\<close> when the argument is absent), \<open>mintBody\<close>
  returns a cell whose payload is the opcode \<open>0x15\<close> in 32 bits, \<open>q\<close> in 64 bits, the
  address \<open>A\<close> and \<open>t\<close> as a coin amount, with exactly one reference, to a cell without
  references whose payload is the opcode \<open>0x178d4519\<close> in 32 bits, \<open>q\<close> in 64 bits,
  \<open>j\<close> as a coin amount, the missing address, the address \<open>A\<close>, the coin amount
  \<open>1000000\<close> (0.001 of the native unit) and one bit 0.
\<close>

theorem mintBody_layout:
  assumes "- 128 \<le> workChain A" and "workChain A < 128" and "length (hash A) = 32"
    and "0 \<le> j" and "j < 2 ^ 120"
    and "0 \<le> t" and "t < 2 ^ 120"
    and "q = (case queryId of None \<Rightarrow> 0 | Some x \<Rightarrow> x)"
    and "0 \<le> q" and "q < 2 ^ 64"
  shows "mintBody A j t queryId =
     Inr (Cell (uint_bits 32 0x15 @ uint_bits 64 q @ address_bits A @ coins_bits t)
            [Cell (uint_bits 32 0x178d4519 @ uint_bits 64 q @ coins_bits j @ no_address_bits @
                   address_bits A @ coins_bits 1000000 @ [False]) []])"
proof -
  have q: "nullish_or queryId 0 = q" using assms(8) by (cases queryId) simp_all
  have la: "length (address_bits A) = 267"
    using assms(3) by (simp add: length_address_bits)
  have lt: "length (coins_bits t) \<le> 124"
    using assms(6,7) by (rule length_coins_bits_le)
  have lj: "length (coins_bits j) \<le> 124"
    using assms(4,5) by (rule length_coins_bits_le)
  have lf: "length (coins_bits 1000000) \<le> 124"
    by (rule length_coins_bits_le) simp_all
  have a: "storeAddress (Some A) b = Inr (append_bits (address_bits A) b)"
    if "length (bld_bits b) + 267 \<le> 1024" for b
    using assms(1,2,3) that by (rule storeAddress_ok)
  have ct: "storeCoins t b = Inr (append_bits (coins_bits t) b)"
    if "length (bld_bits b) + 124 \<le> 1024" for b
    using assms(6,7) that by (rule storeCoins_ok)
  have cj: "storeCoins j b = Inr (append_bits (coins_bits j) b)"
    if "length (bld_bits b) + 124 \<le> 1024" for b
    using assms(4,5) that by (rule storeCoins_ok)
  have cf: "storeCoins 1000000 b = Inr (append_bits (coins_bits 1000000) b)"
    if "length (bld_bits b) + 124 \<le> 1024" for b
    using that by (intro storeCoins_ok) simp_all
  have inner: "build
                 [storeUint Opcodes_InternalTransfer 32,
                  storeUint q 64,
                  storeCoins j,
                  storeAddress None,
                  storeAddress (Some A),
                  storeCoins (toNano (1 / 1000)),
                  storeBit False] =
      Inr (Cell (uint_bits 32 0x178d4519 @ uint_bits 64 q @ coins_bits j @ no_address_bits @
                   address_bits A @ coins_bits 1000000 @ [False]) [])"
    unfolding toNano_milli
    using assms(9,10) lj lf
    by (simp add: build_def storeUint_ok cj storeAddress_None_ok a cf storeBit_ok endCell_ok
        la Opcodes_InternalTransfer_def beginCell_def append_bits_def
        no_address_bits_def)
  show ?thesis
    unfolding mintBody_def q inner
    using assms(9,10) lt
    by (simp add: build_def storeUint_ok a ct storeRef_ok endCell_ok
        la Opcodes_Mint_def beginCell_def append_bits_def)
qed

theorem mintBody_layout_witness:
  "mintBody zero_address 1000 500 (Some 7) =
     Inr (Cell (uint_bits 32 0x15 @ uint_bits 64 7 @ address_bits zero_address @ coins_bits 500)
            [Cell (uint_bits 32 0x178d4519 @ uint_bits 64 7 @ coins_bits 1000 @ no_address_bits @
                   address_bits zero_address @ coins_bits 1000000 @ [False]) []])"
  using mintBody_layout[of zero_address 1000 500 7 "Some 7"]
  by (simp add: zero_address_def)

section \<open>Text bodies and the dispatch\<close>

lemma buffer_bits_append: "buffer_bits (xs @ ys) = buffer_bits xs @ buffer_bits ys"
  by (simp add: buffer_bits_def)

lemma subarray_take: "subarray 0 (int n) src = take n src"
  by (simp add: subarray_def clamp_index_def min_def)

lemma subarray_from_drop: "subarray_from (int n) src = drop n src"
  by (simp add: subarray_from_def clamp_index_def min_def)

lemma availableBits_nat:
  assumes "length (bld_bits b) \<le> 1023"
  shows "availableBits b div 8 = int ((1023 - length (bld_bits b)) div 8)"
proof -
  have "availableBits b = int (1023 - length (bld_bits b))"
    using assms by (simp add: availableBits_def)
  then show ?thesis by (simp add: zdiv_int)
qed

lemma writeBuffer_tail_result:
  assumes "length (bld_bits b) \<le> 1023" and "bld_refs b = []"
  shows "\<exists>b'. writeBuffer_tail src b = Inr b' \<and>
     bld_bits b' = bld_bits b @ buffer_bits (take ((1023 - length (bld_bits b)) div 8) src) \<and>
     length (bld_bits b') \<le> 1023 \<and>
     length (bld_refs b') = (if length src \<le> (1023 - length (bld_bits b)) div 8 then 0 else 1) \<and>
     chain_bits (Cell (bld_bits b') (bld_refs b')) = bld_bits b @ buffer_bits src"
  using assms
proof (induction src b rule: writeBuffer_tail.induct)
  case (1 src b)
  define n where "n = (1023 - length (bld_bits b)) div 8"
  have av: "availableBits b div 8 = int n"
    unfolding n_def using "1.prems"(1) by (rule availableBits_nat)
  have room: "length (bld_bits b) + 8 * n \<le> 1023"
    unfolding n_def using "1.prems"(1) by simp
  show ?case
  proof (cases "length src > 0")
    case False
    then have "writeBuffer_tail src b = Inr b"
      by (subst writeBuffer_tail.simps) simp
    with False "1.prems" show ?thesis
      by (simp add: buffer_bits_def)
  next
    case True
    show ?thesis
    proof (cases "int (length src) > availableBits b div 8")
      case False
      then have fits: "length src \<le> n" using av by simp
      have "length (bld_bits b) + 8 * length src \<le> 1024" using fits room by simp
      then have sb: "storeBuffer src b = Inr (append_bits (buffer_bits src) b)"
        by (rule storeBuffer_ok)
      have "writeBuffer_tail src b = Inr (append_bits (buffer_bits src) b)"
        using True False sb by (subst writeBuffer_tail.simps) simp
      with fits room "1.prems" show ?thesis
        by (simp add: n_def[symmetric])
    next
      case long: True
      then have over: "n < length src" using av by simp
      define b1 where "b1 = append_bits (buffer_bits (take n src)) b"
      have "length (bld_bits b) + 8 * length (take n src) \<le> 1024"
        using room by simp
      then have "storeBuffer (take n src) b = Inr b1"
        unfolding b1_def by (rule storeBuffer_ok)
      then have sb: "storeBuffer (subarray 0 (availableBits b div 8) src) b = Inr b1"
        by (simp add: av subarray_take)
      have p1: "length (bld_bits beginCell) \<le> 1023" and p2: "bld_refs beginCell = []"
        by (simp_all add: beginCell_def)
      from "1.IH"[OF True long sb p1 p2]
      obtain bb where bb: "writeBuffer_tail (drop n src) beginCell = Inr bb"
        "length (bld_bits bb) \<le> 1023"
        "length (bld_refs bb) \<le> 1"
        "chain_bits (Cell (bld_bits bb) (bld_refs bb)) = buffer_bits (drop n src)"
        by (auto simp: av subarray_from_drop beginCell_def split: if_splits)
      have ec: "endCell bb = Inr (Cell (bld_bits bb) (bld_refs bb))"
        using bb(2,3) by (intro endCell_ok) simp_all
      have sr: "storeRef (Cell (bld_bits bb) (bld_refs bb)) b1 =
          Inr (b1\<lparr>bld_refs := [Cell (bld_bits bb) (bld_refs bb)]\<rparr>)"
        using "1.prems"(2) storeRef_ok[of b1 "Cell (bld_bits bb) (bld_refs bb)"]
        by (simp add: b1_def)
      have res: "writeBuffer_tail src b = Inr (b1\<lparr>bld_refs := [Cell (bld_bits bb) (bld_refs bb)]\<rparr>)"
        using True long sb bb(1) ec sr
        by (subst writeBuffer_tail.simps) (simp add: av subarray_from_drop)
      have "buffer_bits (take n src) @ buffer_bits (drop n src) = buffer_bits src"
        by (simp add: buffer_bits_append[symmetric])
      then have cb: "chain_bits (Cell (bld_bits b1) [Cell (bld_bits bb) (bld_refs bb)]) =
          bld_bits b @ buffer_bits src"
        using bb(4) by (simp add: b1_def)
      show ?thesis
        using res cb over room by (simp add: n_def[symmetric] b1_def)
    qed
  qed
qed

lemma zero_opcode: "uint_bits 32 0 = replicate 32 False"
proof -
  have "map (bit (0::int)) [0..<n] = replicate n False" for n
    by (induction n) (simp_all add: replicate_append_same)
  then show ?thesis by (simp add: uint_bits_def)
qed

lemma text_body_result:
  "\<exists>c. text_body (MsgString s) = Inr c \<and>
     cell_bits c = replicate 32 False @ buffer_bits (take 123 (utf8_encode s)) \<and>
     length (cell_refs c) = (if length (utf8_encode s) \<le> 123 then 0 else 1) \<and>
     chain_bits c = replicate 32 False @ buffer_bits (utf8_encode s)"
proof -
  define b0 where "b0 = append_bits (uint_bits 32 0) beginCell"
  have s0: "storeUint 0 32 beginCell = Inr b0"
    unfolding b0_def by (intro storeUint_ok) (simp_all add: beginCell_def)
  have p1: "length (bld_bits b0) \<le> 1023" and p2: "bld_refs b0 = []"
    and l0: "length (bld_bits b0) = 32"
    by (simp_all add: b0_def beginCell_def)
  from writeBuffer_tail_result[OF p1 p2, of "utf8_encode s"]
  obtain b' where b': "writeBuffer_tail (utf8_encode s) b0 = Inr b'"
     "bld_bits b' = bld_bits b0 @ buffer_bits (take ((1023 - length (bld_bits b0)) div 8) (utf8_encode s))"
     "length (bld_bits b') \<le> 1023"
     "length (bld_refs b') = (if length (utf8_encode s) \<le> (1023 - length (bld_bits b0)) div 8 then 0 else 1)"
     "chain_bits (Cell (bld_bits b') (bld_refs b')) = bld_bits b0 @ buffer_bits (utf8_encode s)"
    by blast
  have ec: "endCell b' = Inr (Cell (bld_bits b') (bld_refs b'))"
    using b'(3,4) by (intro endCell_ok) (simp_all split: if_splits)
  have "text_body (MsgString s) = Inr (Cell (bld_bits b') (bld_refs b'))"
    by (simp add: text_body_def build_def s0 storeStringTail_def b'(1) ec)
  moreover have "bld_bits b0 = replicate 32 False"
    by (simp add: b0_def beginCell_def zero_opcode)
  ultimately show ?thesis
    using b'(2,4,5) l0 by simp
qed

lemma send_string: "send (MsgString s) = text_body (MsgString s)"
proof -
  from text_body_result[of s] obtain c where "text_body (MsgString s) = Inr c" by blast
  then show ?thesis by (simp add: send_def assign_if_def)
qed

lemma utf8_encode_ascii:
  "\<forall>u \<in> set s. unat u < 0x80 \<Longrightarrow> utf8_encode s = map (\<lambda>u. of_nat (unat u)) s"
  by (induction s) simp_all

text \<open>
  Claim C7 as stated (the payload of the body cell is 32 zero bits followed by the UTF-8
  bytes of the string, for every string) fails for a string of 124 bytes: a cell has no
  room for \<open>32 + 124 * 8\<close> bits, and the body is not that single cell.
\<close>

theorem send_long_text_counterexample:
  "send (MsgString (replicate 124 0x61)) \<noteq>
     Inr (Cell (replicate 32 False @ buffer_bits (utf8_encode (replicate 124 0x61))) [])"
proof
  assume a: "send (MsgString (replicate 124 0x61)) =
     Inr (Cell (replicate 32 False @ buffer_bits (utf8_encode (replicate 124 0x61))) [])"
  have u: "utf8_encode (replicate 124 0x61) = replicate 124 0x61"
    by (subst utf8_encode_ascii) simp_all
  from text_body_result[of "replicate 124 0x61"]
  obtain c where c: "text_body (MsgString (replicate 124 0x61)) = Inr c"
    "length (cell_refs c) = (if length (utf8_encode (replicate 124 0x61)) \<le> 123 then 0 else 1)"
    by blast
  from c(2) have "length (cell_refs c) = 1" by (simp add: u)
  moreover from a c(1) have "c = Cell (replicate 32 False @ buffer_bits (utf8_encode (replicate 124 0x61))) []"
    by (simp add: send_string)
  ultimately show False by simp
qed

text \<open>
  Claim C7, amended: for every string \<open>s\<close>, the reserved literals included,
  \<open>send\<close> hands on a body cell whose payload is 32 zero bits followed by the first 123
  bytes of the UTF-8 encoding of \<open>s\<close>, with no length prefix; a string of at most 123
  bytes gives a cell without references, a longer one continues in one chain of child
  cells, and the payloads along the chain are the 32 zero bits followed by all the bytes of
  \<open>s\<close>. The literals \<^verbatim>\<open>Mint\<close> and \<^verbatim>\<open>Owner Claim\<close> are encoded by this rule. A message
  that is neither a string nor an object (not a slice) tagged \<^verbatim>\<open>JettonInitial\<close> or
  \<^verbatim>\<open>TokenBurnNotification\<close> makes \<open>send\<close> throw the invalid-message error.
\<close>

theorem send_text_dispatch:
  "(\<exists>c. send (MsgString s) = Inr c \<and>
      cell_bits c = replicate 32 False @ buffer_bits (take 123 (utf8_encode s)) \<and>
      length (cell_refs c) = (if length (utf8_encode s) \<le> 123 then 0 else 1) \<and>
      chain_bits c = replicate 32 False @ buffer_bits (utf8_encode s))
   \<and> send (MsgString (js ''Mint'')) =
       Inr (Cell (replicate 32 False @ buffer_bits (utf8_encode (js ''Mint''))) [])
   \<and> send (MsgString (js ''Owner Claim'')) =
       Inr (Cell (replicate 32 False @ buffer_bits (utf8_encode (js ''Owner Claim''))) [])
   \<and> (typeof m \<noteq> TypeString \<and>
       \<not> (is_truthy m \<and> typeof m = TypeObject \<and> \<not> instanceof_Slice m \<and>
          (type_tag m = Some (js ''JettonInitial'') \<or>
           type_tag m = Some (js ''TokenBurnNotification'')))
       \<longrightarrow> send m = Inl InvalidMessageType)"
proof -
  have short: "send (MsgString t) = Inr (Cell (replicate 32 False @ buffer_bits (utf8_encode t)) [])"
    if "length (utf8_encode t) \<le> 123" for t
  proof -
    from text_body_result[of t]
    obtain c where c: "text_body (MsgString t) = Inr c"
      "cell_bits c = replicate 32 False @ buffer_bits (take 123 (utf8_encode t))"
      "length (cell_refs c) = (if length (utf8_encode t) \<le> 123 then 0 else 1)"
      by blast
    from c(2,3) that have "c = Cell (replicate 32 False @ buffer_bits (utf8_encode t)) []"
      by (cases c) simp
    with c(1) show ?thesis by (simp add: send_string)
  qed
  have "length (utf8_encode (js ''Mint'')) \<le> 123" by (simp add: js_def)
  then have mint: "send (MsgString (js ''Mint'')) =
       Inr (Cell (replicate 32 False @ buffer_bits (utf8_encode (js ''Mint''))) [])"
    by (rule short)
  have "length (utf8_encode (js ''Owner Claim'')) \<le> 123" by (simp add: js_def)
  then have claim: "send (MsgString (js ''Owner Claim'')) =
       Inr (Cell (replicate 32 False @ buffer_bits (utf8_encode (js ''Owner Claim''))) [])"
    by (rule short)
  have inv: "send m = Inl InvalidMessageType"
    if "typeof m \<noteq> TypeString"
      and "\<not> (is_truthy m \<and> typeof m = TypeObject \<and> \<not> instanceof_Slice m \<and>
          (type_tag m = Some (js ''JettonInitial'') \<or>
           type_tag m = Some (js ''TokenBurnNotification'')))"
  proof -
    from that(1) have ns: "m \<noteq> MsgString t" for t by (cases m) auto
    show ?thesis using that ns by (auto simp: send_def assign_if_def)
  qed
  from text_body_result[of s] mint claim inv show ?thesis
    by (simp add: send_string)
qed

theorem send_text_dispatch_witness:
  "typeof MsgNull \<noteq> TypeString \<and> send MsgNull = Inl InvalidMessageType \<and>
   send (MsgObject (Some (js ''Other''))) = Inl InvalidMessageType \<and>
   send (MsgString (js ''Hello'')) =
     Inr (Cell (replicate 32 False @ buffer_bits [0x48, 0x65, 0x6C, 0x6C, 0x6F]) [])"
proof -
  have n: "send MsgNull = Inl InvalidMessageType"
    using send_text_dispatch[of "js ''Hello''" MsgNull] by simp
  have o: "send (MsgObject (Some (js ''Other''))) = Inl InvalidMessageType"
    using send_text_dispatch[of "js ''Hello''" "MsgObject (Some (js ''Other''))"]
    by (simp add: js_def)
  have u: "utf8_encode (js ''Hello'') = [0x48, 0x65, 0x6C, 0x6C, 0x6F]"
    by (simp add: js_def)
  from send_text_dispatch[of "js ''Hello''" MsgNull]
  obtain c where c: "send (MsgString (js ''Hello'')) = Inr c"
      "cell_bits c = replicate 32 False @ buffer_bits (take 123 (utf8_encode (js ''Hello'')))"
      "length (cell_refs c) = (if length (utf8_encode (js ''Hello'')) \<le> 123 then 0 else 1)"
    by blast
  from c(2,3) have "c = Cell (replicate 32 False @ buffer_bits [0x48, 0x65, 0x6C, 0x6C, 0x6F]) []"
    by (cases c) (simp add: u)
  with c(1) n o show ?thesis by simp
qed

text \<open>
  Claim C10: the empty string is not rejected; \<open>send\<close> hands on a body cell whose
  payload is exactly 32 zero bits, without references.
\<close>

theorem send_empty_string:
  "send (MsgString []) = Inr (Cell (replicate 32 False) [])"
proof -
  from text_body_result[of "[]"]
  obtain c where c: "text_body (MsgString []) = Inr c"
      "cell_bits c = replicate 32 False @ buffer_bits (take 123 (utf8_encode []))"
      "length (cell_refs c) = (if length (utf8_encode []) \<le> 123 then 0 else 1)"
    by blast
  from c(2,3) have "c = Cell (replicate 32 False) []"
    by (cases c) (simp add: buffer_bits_def)
  with c(1) show ?thesis by (simp add: send_string)
qed

end
